theory Spec2Isabelle
  imports Complex_Main
begin

section \<open>The calendar of Python's \<open>datetime\<close> module\<close>

text \<open>
  Every variant of the script computes its date range with \<open>datetime.now()\<close>,
  \<open>timedelta\<close> and \<open>strftime\<close>.  The definitions of this section follow the
  pure-Python implementation of the standard library (\<open>_pydatetime.py\<close>): the
  proleptic Gregorian calendar with 1 January of year 1 as day number 1, and the
  largest ordinal that of 31 December 9999.  Python integers are \<open>int\<close>; \<open>//\<close>
  and \<open>%\<close> are floor division, as \<open>div\<close> and \<open>mod\<close> on \<open>int\<close> are.
\<close>

datatype py_error = OverflowError

definition MINYEAR :: int where "MINYEAR = 1"
definition MAXYEAR :: int where "MAXYEAR = 9999"
definition MAXORDINAL :: int where "MAXORDINAL = 3652059"

text \<open>The two month tables; index 0 holds the placeholder \<open>-1\<close>.\<close>

definition DAYS_IN_MONTH :: "int list" where
  "DAYS_IN_MONTH = [-1, 31, 28, 31, 30, 31, 30, 31, 31, 30, 31, 30, 31]"

definition DAYS_BEFORE_MONTH :: "int list" where
  "DAYS_BEFORE_MONTH = [-1, 0, 31, 59, 90, 120, 151, 181, 212, 243, 273, 304, 334]"

definition is_leap :: "int \<Rightarrow> bool" where
  "is_leap y \<longleftrightarrow> y mod 4 = 0 \<and> (y mod 100 \<noteq> 0 \<or> y mod 400 = 0)"

definition days_before_year :: "int \<Rightarrow> int" where
  "days_before_year yr = (let y = yr - 1 in y * 365 + y div 4 - y div 100 + y div 400)"

definition days_in_month :: "int \<Rightarrow> int \<Rightarrow> int" where
  "days_in_month y m = (if m = 2 \<and> is_leap y then 29 else DAYS_IN_MONTH ! nat m)"

definition days_before_month :: "int \<Rightarrow> int \<Rightarrow> int" where
  "days_before_month y m = DAYS_BEFORE_MONTH ! nat m + (if m > 2 \<and> is_leap y then 1 else 0)"

definition ymd2ord :: "int \<Rightarrow> int \<Rightarrow> int \<Rightarrow> int" where
  "ymd2ord y m d = days_before_year y + days_before_month y m + d"

definition DI400Y :: int where "DI400Y = days_before_year 401"
definition DI100Y :: int where "DI100Y = days_before_year 101"
definition DI4Y :: int where "DI4Y = days_before_year 5"

text \<open>
  \<open>_ord2ymd\<close>: the successive \<open>divmod\<close>s rebind \<open>n\<close>; here each remainder has a
  name of its own (\<open>r400\<close>, \<open>r100\<close>, \<open>r4\<close>, \<open>r1\<close>).  \<open>(n + 50) >> 5\<close> is
  \<open>(n + 50) div 32\<close>.
\<close>

definition ord2ymd :: "int \<Rightarrow> int \<times> int \<times> int" where
  "ord2ymd n =
     (let n0 = n - 1;
          n400 = n0 div DI400Y; r400 = n0 mod DI400Y;
          n100 = r400 div DI100Y; r100 = r400 mod DI100Y;
          n4 = r100 div DI4Y; r4 = r100 mod DI4Y;
          n1 = r4 div 365; r1 = r4 mod 365;
          yr = n400 * 400 + 1 + (n100 * 100 + n4 * 4 + n1)
      in if n1 = 4 \<or> n100 = 4 then (yr - 1, 12, 31)
         else
           let leapyear = (n1 = 3 \<and> (n4 \<noteq> 24 \<or> n100 = 3));
               mon = (r1 + 50) div 32;
               preceding = DAYS_BEFORE_MONTH ! nat mon + (if mon > 2 \<and> leapyear then 1 else 0)
           in if preceding > r1
              then (yr, mon - 1,
                    r1 - (preceding - (DAYS_IN_MONTH ! nat (mon - 1)
                                        + (if mon - 1 = 2 \<and> leapyear then 1 else 0))) + 1)
              else (yr, mon, r1 - preceding + 1))"

text \<open>
  A \<open>datetime\<close> value as the naive (time-zone free) object \<open>datetime.now()\<close>
  returns.  The constructor of the class admits only the values described by
  \<open>valid_datetime\<close>.
\<close>

record datetime =
  year :: int
  month :: int
  day :: int
  hour :: int
  minute :: int
  second :: int
  microsecond :: int

definition valid_datetime :: "datetime \<Rightarrow> bool" where
  "valid_datetime dt \<longleftrightarrow>
     MINYEAR \<le> year dt \<and> year dt \<le> MAXYEAR \<and>
     1 \<le> month dt \<and> month dt \<le> 12 \<and>
     1 \<le> day dt \<and> day dt \<le> days_in_month (year dt) (month dt) \<and>
     0 \<le> hour dt \<and> hour dt \<le> 23 \<and>
     0 \<le> minute dt \<and> minute dt \<le> 59 \<and>
     0 \<le> second dt \<and> second dt \<le> 59 \<and>
     0 \<le> microsecond dt \<and> microsecond dt \<le> 999999"

definition toordinal :: "datetime \<Rightarrow> int" where
  "toordinal dt = ymd2ord (year dt) (month dt) (day dt)"

text \<open>
  The script builds its time deltas only as \<open>timedelta(days=n)\<close> and
  \<open>timedelta(weeks=n)\<close>; such a delta is a whole number of days, its seconds and
  microseconds are zero.
\<close>

record timedelta =
  days :: int

definition timedelta_kw :: "int \<Rightarrow> int \<Rightarrow> timedelta" where
  \<comment> \<open>\<open>timedelta(days=d, weeks=w)\<close>\<close>
  "timedelta_kw d w = \<lparr>days = d + 7 * w\<rparr>"

text \<open>
  \<open>datetime.__sub__\<close> with a \<open>timedelta\<close>: \<open>self + -other\<close>.  For a delta of
  whole days the time of day is kept and the date is the one whose ordinal is
  \<open>toordinal() - days\<close>; outside \<open>0 < ordinal <= _MAXORDINAL\<close> Python raises
  \<open>OverflowError\<close>.
\<close>

definition datetime_sub :: "datetime \<Rightarrow> timedelta \<Rightarrow> py_error + datetime" where
  "datetime_sub dt delta =
     (let n = toordinal dt - days delta
      in if 0 < n \<and> n \<le> MAXORDINAL
         then (case ord2ymd n of (y, m, d) \<Rightarrow> Inr (dt\<lparr>year := y, month := m, day := d\<rparr>))
         else Inl OverflowError)"

subsection \<open>Formatting\<close>

text \<open>
  \<open>strftime\<close> on the directives the script can meet: \<open>%Y\<close> is the year as
  four zero-padded digits (\<open>0001\<close>, \<dots>, \<open>9999\<close>, as the library documents it; the
  padding matters below year 1000 only, where a C library may print fewer digits),
  \<open>%m\<close> and \<open>%d\<close> the month and day as two, \<open>%%\<close> a percent sign; every
  other character is copied.
\<close>

fun str_nat :: "nat \<Rightarrow> string" where
  "str_nat n = (if n < 10 then [''0123456789'' ! n]
                else str_nat (n div 10) @ [''0123456789'' ! (n mod 10)])"

declare str_nat.simps [simp del]

definition zfill :: "nat \<Rightarrow> string \<Rightarrow> string" where
  "zfill w s = replicate (w - length s) CHR ''0'' @ s"

fun strftime :: "datetime \<Rightarrow> string \<Rightarrow> string" where
  "strftime dt (c # d # cs) =
     (if c = CHR ''%'' then
        (if d = CHR ''Y'' then zfill 4 (str_nat (nat (year dt))) @ strftime dt cs
         else if d = CHR ''m'' then zfill 2 (str_nat (nat (month dt))) @ strftime dt cs
         else if d = CHR ''d'' then zfill 2 (str_nat (nat (day dt))) @ strftime dt cs
         else if d = CHR ''%'' then CHR ''%'' # strftime dt cs
         else c # d # strftime dt cs)
      else c # strftime dt (d # cs))"
| "strftime dt cs = cs"

section \<open>The date-range resolver, variant by variant\<close>

text \<open>
  \<open>get_date_range(period_name)\<close> reads the clock first (\<open>today = datetime.now()\<close>);
  the reading is the second argument of each model.  The result is \<open>Inr\<close> of the
  pair of strings the function returns, or \<open>Inl\<close> of the exception the subtraction
  raises.
\<close>

definition get_date_range_share :: "string \<Rightarrow> datetime \<Rightarrow> py_error + string \<times> string" where
  \<comment> \<open>\<open>share.py\<close>\<close>
  "get_date_range_share period_name today =
     (case (if period_name = ''last_week'' then datetime_sub today (timedelta_kw 7 0)
            else if period_name = ''last_4_weeks'' then datetime_sub today (timedelta_kw 0 4)
            else if period_name = ''last_3_months'' then datetime_sub today (timedelta_kw 90 0)
            else if period_name = ''last_6_months'' then datetime_sub today (timedelta_kw 180 0)
            else datetime_sub today (timedelta_kw 7 0)) of
        Inl e \<Rightarrow> Inl e
      | Inr from_date \<Rightarrow> Inr (strftime from_date ''%Y-%m-%d'', strftime today ''%Y-%m-%d''))"

definition get_date_range_hello :: "string \<Rightarrow> datetime \<Rightarrow> py_error + string \<times> string" where
  \<comment> \<open>\<open>hello.py\<close>\<close>
  "get_date_range_hello period_name today =
     (case (if period_name = ''last_week'' then datetime_sub today (timedelta_kw 7 0)
            else if period_name = ''last_4_weeks'' then datetime_sub today (timedelta_kw 0 4)
            else if period_name = ''last_3_months'' then datetime_sub today (timedelta_kw 90 0)
            else if period_name = ''last_6_months'' then datetime_sub today (timedelta_kw 180 0)
            else datetime_sub today (timedelta_kw 7 0)) of
        Inl e \<Rightarrow> Inl e
      | Inr from_date \<Rightarrow> Inr (strftime from_date ''%Y-%m-%d'', strftime today ''%Y-%m-%d''))"

definition get_date_range_sshare :: "string \<Rightarrow> datetime \<Rightarrow> py_error + string \<times> string" where
  \<comment> \<open>\<open>sshare.py\<close>\<close>
  "get_date_range_sshare period_name today =
     (case (if period_name = ''last_week'' then datetime_sub today (timedelta_kw 7 0)
            else if period_name = ''one_month'' then datetime_sub today (timedelta_kw 30 0)
            else if period_name = ''three_months'' then datetime_sub today (timedelta_kw 90 0)
            else datetime_sub today (timedelta_kw 7 0)) of
        Inl e \<Rightarrow> Inl e
      | Inr from_date \<Rightarrow> Inr (strftime from_date ''%Y-%m-%d'', strftime today ''%Y-%m-%d''))"

definition get_date_range_shharee :: "string \<Rightarrow> datetime \<Rightarrow> py_error + string \<times> string" where
  \<comment> \<open>\<open>shharee.py\<close>; the second format string is \<open>"%Y-m-%d"\<close> in the source\<close>
  "get_date_range_shharee period_name today =
     (case (if period_name = ''last_week'' then datetime_sub today (timedelta_kw 7 0)
            else if period_name = ''last_4_weeks'' then datetime_sub today (timedelta_kw 0 4)
            else if period_name = ''last_3_months'' then datetime_sub today (timedelta_kw 90 0)
            else if period_name = ''last_6_months'' then datetime_sub today (timedelta_kw 180 0)
            else datetime_sub today (timedelta_kw 7 0)) of
        Inl e \<Rightarrow> Inl e
      | Inr from_date \<Rightarrow> Inr (strftime from_date ''%Y-%m-%d'', strftime today ''%Y-m-%d''))"

text \<open>A clock reading at a given calendar date (the time of day is noon).\<close>

definition at_date :: "int \<Rightarrow> int \<Rightarrow> int \<Rightarrow> datetime" where
  "at_date y m d =
     \<lparr>year = y, month = m, day = d, hour = 12, minute = 0, second = 0, microsecond = 0\<rparr>"

section \<open>Reference notions for the date claims\<close>

text \<open>
  The calendar date one day earlier, computed field by field with no ordinal
  arithmetic; there is none before 1 January of year 1.  \<open>calendar_days_before k\<close>
  steps back \<open>k\<close> days one at a time: the calendar subtraction the resolver's
  ordinal subtraction is compared with.
\<close>

definition calendar_prev_day :: "datetime \<Rightarrow> datetime option" where
  "calendar_prev_day dt =
     (if 1 < day dt then Some (dt\<lparr>day := day dt - 1\<rparr>)
      else if 1 < month dt
        then Some (dt\<lparr>month := month dt - 1, day := days_in_month (year dt) (month dt - 1)\<rparr>)
      else if MINYEAR < year dt then Some (dt\<lparr>year := year dt - 1, month := 12, day := 31\<rparr>)
      else None)"

fun calendar_days_before :: "nat \<Rightarrow> datetime \<Rightarrow> datetime option" where
  "calendar_days_before 0 dt = Some dt"
| "calendar_days_before (Suc k) dt =
     (case calendar_prev_day dt of None \<Rightarrow> None | Some dt' \<Rightarrow> calendar_days_before k dt')"

text \<open>The order of calendar dates: year, then month, then day.\<close>

definition date_le :: "datetime \<Rightarrow> datetime \<Rightarrow> bool" where
  "date_le a b \<longleftrightarrow>
     year a < year b \<or>
     (year a = year b \<and> (month a < month b \<or> (month a = month b \<and> day a \<le> day b)))"

text \<open>The format the resolver is meant to produce, and the shape of its strings.\<close>

definition iso_format :: "datetime \<Rightarrow> string" where
  "iso_format dt = strftime dt ''%Y-%m-%d''"

definition is_digit :: "char \<Rightarrow> bool" where
  "is_digit c \<longleftrightarrow> c \<in> set ''0123456789''"

definition iso_date_shape :: "string \<Rightarrow> bool" where
  "iso_date_shape s \<longleftrightarrow>
     length s = 10 \<and> list_all is_digit (take 4 s) \<and> s ! 4 = CHR ''-'' \<and>
     list_all is_digit (take 2 (drop 5 s)) \<and> s ! 7 = CHR ''-'' \<and> list_all is_digit (drop 8 s)"

text \<open>
  The range that lies \<open>k\<close> whole days before the clock reading: the pair of
  formatted dates, or the overflow error where the calendar has no such day.
\<close>

definition range_before :: "nat \<Rightarrow> datetime \<Rightarrow> py_error + string \<times> string" where
  "range_before k now =
     (case calendar_days_before k now of
        None \<Rightarrow> Inl OverflowError
      | Some start \<Rightarrow> Inr (iso_format start, iso_format now))"

text \<open>The offset table of the specification, for the four-tag variants.\<close>

definition spec_offsets :: "(string \<times> nat) list" where
  "spec_offsets =
     [(''last_week'', 7), (''last_4_weeks'', 28), (''last_3_months'', 90), (''last_6_months'', 180)]"

text \<open>The valid period names of \<open>sshare.py\<close> with the days each selects.\<close>

definition sshare_offsets :: "(string \<times> nat) list" where
  "sshare_offsets = [(''last_week'', 7), (''one_month'', 30), (''three_months'', 90)]"

text \<open>The reading \<open>dt\<close> moved to the date of ordinal \<open>n\<close>, its time of day kept.\<close>

definition with_date :: "datetime \<Rightarrow> int \<Rightarrow> datetime" where
  "with_date dt n = (case ord2ymd n of (y, m, d) \<Rightarrow> dt\<lparr>year := y, month := m, day := d\<rparr>)"

text \<open>Auxiliary notions for the proofs about \<open>ord2ymd\<close>.\<close>

definition year_len :: "int \<Rightarrow> int" where
  "year_len y = (if is_leap y then 366 else 365)"

definition valid_ymd :: "int \<Rightarrow> int \<Rightarrow> int \<Rightarrow> bool" where
  "valid_ymd y m d \<longleftrightarrow> 1 \<le> m \<and> m \<le> 12 \<and> 1 \<le> d \<and> d \<le> days_in_month y m"

definition month_day :: "bool \<Rightarrow> int \<Rightarrow> int \<times> int" where
  \<comment> \<open>the month and day \<open>_ord2ymd\<close> finds for offset \<open>r\<close> into a year\<close>
  "month_day lp r =
     (let mon = (r + 50) div 32;
          preceding = DAYS_BEFORE_MONTH ! nat mon + (if mon > 2 \<and> lp then 1 else 0)
      in if preceding > r
         then (mon - 1,
               r - (preceding - (DAYS_IN_MONTH ! nat (mon - 1)
                                  + (if mon - 1 = 2 \<and> lp then 1 else 0))) + 1)
         else (mon, r - preceding + 1))"

definition md_ok :: "bool \<Rightarrow> int \<Rightarrow> int \<times> int \<Rightarrow> bool" where
  "md_ok lp r md \<longleftrightarrow> (case md of (m, d) \<Rightarrow>
      1 \<le> m \<and> m \<le> 12 \<and> 1 \<le> d \<and> d \<le> (if m = 2 \<and> lp then 29 else DAYS_IN_MONTH ! nat m)
      \<and> DAYS_BEFORE_MONTH ! nat m + (if m > 2 \<and> lp then 1 else 0) + d = r + 1)"

section \<open>Fetching news\<close>

text \<open>
  The news-search service is a collaborator outside the script: a function from the
  request \<open>get_everything\<close> receives to the response, or to the message of the
  exception the client raises.  Each model returns the search calls it made, in
  order, next to the value the Python function returns; what the script prints or
  shows on the page is not modelled.
\<close>

record search_request =
  rq_api_key :: "string option"
  rq_q :: string
  rq_from_param :: string
  rq_to :: string
  rq_language :: string
  rq_sort_by :: string
  rq_page_size :: int

record article =
  title :: string
  source_name :: string
  publishedAt :: string
  description :: "string option"
  url :: string
  urlToImage :: "string option"

record search_response =
  totalResults :: int
  articles :: "article list"

type_synonym news_api = "search_request \<Rightarrow> string + search_response"

text \<open>\<open>sep.join(xs)\<close>\<close>

fun join :: "string \<Rightarrow> string list \<Rightarrow> string" where
  "join sep [] = []"
| "join sep [x] = x"
| "join sep (x # y # ys) = x @ sep @ join sep (y # ys)"

text \<open>\<open>not api_key\<close>: true of \<open>None\<close> and of the empty string.\<close>

definition py_not :: "string option \<Rightarrow> bool" where
  "py_not k \<longleftrightarrow> (case k of None \<Rightarrow> True | Some s \<Rightarrow> s = [])"

definition fetch_news_for_stocks_hello ::
  "news_api \<Rightarrow> string option \<Rightarrow> string list \<Rightarrow> string \<Rightarrow> string
     \<Rightarrow> search_request list \<times> article list" where
  \<comment> \<open>\<open>hello.py\<close>\<close>
  "fetch_news_for_stocks_hello get_everything api_key stock_list from_date to_date =
     (if py_not api_key then ([], [])
      else if stock_list = [] then ([], [])
      else
        let stocks_for_query = take 15 stock_list;
            query = ''('' @ join '' OR '' stocks_for_query @ '') AND (stock OR market OR NSE OR BSE)'';
            request = \<lparr>rq_api_key = api_key, rq_q = query, rq_from_param = from_date,
                       rq_to = to_date, rq_language = ''en'', rq_sort_by = ''publishedAt'',
                       rq_page_size = 50\<rparr>
        in case get_everything request of
             Inl e \<Rightarrow> ([request], [])
           | Inr all_articles \<Rightarrow>
               if totalResults all_articles = 0 then ([request], [])
               else ([request], articles all_articles))"

definition fetch_news_for_stocks_sshare ::
  "news_api \<Rightarrow> string option \<Rightarrow> string list \<Rightarrow> string \<Rightarrow> string
     \<Rightarrow> search_request list \<times> article list" where
  \<comment> \<open>\<open>sshare.py\<close>\<close>
  "fetch_news_for_stocks_sshare get_everything api_key stock_list from_date to_date =
     (if py_not api_key then ([], [])
      else if stock_list = [] then ([], [])
      else
        let stocks_for_query = take 15 stock_list;
            query = ''('' @ join '' OR '' stocks_for_query @ '') AND (stock OR market OR NSE OR BSE)'';
            request = \<lparr>rq_api_key = api_key, rq_q = query, rq_from_param = from_date,
                       rq_to = to_date, rq_language = ''en'', rq_sort_by = ''publishedAt'',
                       rq_page_size = 50\<rparr>
        in case get_everything request of
             Inl e \<Rightarrow> ([request], [])
           | Inr all_articles \<Rightarrow>
               if totalResults all_articles = 0 then ([request], [])
               else ([request], articles all_articles))"

text \<open>
  \<open>share.py\<close> reads its key from the module-level \<open>NEWS_API_KEY\<close>, which the user is
  told to edit; the file ships with the placeholder.  The function returns \<open>None\<close>
  on every path, so the value of the model is the list of search calls alone.
\<close>

definition NEWS_API_KEY_placeholder :: string where
  "NEWS_API_KEY_placeholder = ''YOUR_API_KEY_HERE''"

definition fetch_news_for_stocks_share ::
  "string \<Rightarrow> news_api \<Rightarrow> string list \<Rightarrow> string \<Rightarrow> string \<Rightarrow> search_request list" where
  "fetch_news_for_stocks_share NEWS_API_KEY get_everything stock_list from_date to_date =
     (if NEWS_API_KEY = ''YOUR_API_KEY_HERE'' then []
      else if stock_list = [] then []
      else
        let stocks_for_query = take 15 stock_list;
            query = ''('' @ join '' OR '' stocks_for_query @ '') AND (stock OR market OR NSE OR BSE)'';
            request = \<lparr>rq_api_key = Some NEWS_API_KEY, rq_q = query, rq_from_param = from_date,
                       rq_to = to_date, rq_language = ''en'', rq_sort_by = ''publishedAt'',
                       rq_page_size = 20\<rparr>
        in case get_everything request of
             Inl e \<Rightarrow> [request]
           | Inr all_articles \<Rightarrow> [request])"

section \<open>Sentiment labels\<close>

text \<open>
  The scorer is a collaborator: \<open>polarity_scores\<close> maps a text to its four scores.
  A score is a Python float, read here as the real number it stands for; the two
  comparisons of the source are then comparisons of reals.  The literal \<open>0.05\<close> of
  the source is itself a float, \<open>float_0_05\<close> below, a little above one twentieth;
  \<open>binary64\<close> describes the reals a finite float can stand for, and on those
  comparing with the literal and comparing with one twentieth agree
  (\<open>float_thresholds_exact\<close>).  The second component of the result is the emoji, as
  the list of its code points.
\<close>

definition binary64 :: "real \<Rightarrow> bool" where
  "binary64 x \<longleftrightarrow>
     (\<exists>(m::int) (e::nat). \<bar>m\<bar> < 2 ^ 53 \<and> e \<le> 971 \<and> x = of_int m * 2 ^ e) \<or>
     (\<exists>(m::int) (e::nat). \<bar>m\<bar> < 2 ^ 53 \<and> e \<le> 1074 \<and> x = of_int m / 2 ^ e)"

definition float_0_05 :: real where
  "float_0_05 = 3602879701896397 / 2 ^ 56"

record scores =
  neg_score :: real
  neu_score :: real
  pos_score :: real
  compound :: real

definition get_sentiment :: "(string \<Rightarrow> scores) \<Rightarrow> string \<Rightarrow> string \<times> nat list" where
  "get_sentiment polarity_scores txt =
     (let score = polarity_scores txt;
          c = compound score
      in if c \<ge> 0.05 then (''Positive'', [128994])
         else if c \<le> - 0.05 then (''Negative'', [128308])
         else (''Neutral'', [9898]))"

section \<open>Facts about the calendar\<close>

lemma year_decomp_dby:
  assumes "0 \<le> a" "a \<le> 3" "0 \<le> b" "b \<le> 24" "0 \<le> c" "c \<le> 3"
  shows "days_before_year (400 * q + 100 * a + 4 * b + c + 1) = 146097 * q + 36524 * a + 1461 * b + 365 * c"
proof -
  let ?y = "400 * q + 100 * a + 4 * b + c"
  have d4: "?y div 4 = 100 * q + 25 * a + b"
    using assms by (intro int_div_pos_eq[where r = c]) auto
  have d100: "?y div 100 = 4 * q + a"
    using assms by (intro int_div_pos_eq[where r = "4 * b + c"]) auto
  have d400: "?y div 400 = q"
    using assms by (intro int_div_pos_eq[where r = "100 * a + 4 * b + c"]) auto
  show ?thesis
    unfolding days_before_year_def Let_def using d4 d100 d400 by simp
qed

lemma year_decomp_leap:
  assumes "0 \<le> a" "a \<le> 3" "0 \<le> b" "b \<le> 24" "0 \<le> c" "c \<le> 3"
  shows "is_leap (400 * q + 100 * a + 4 * b + c + 1) \<longleftrightarrow> c = 3 \<and> (b \<noteq> 24 \<or> a = 3)"
proof -
  let ?y = "400 * q + 100 * a + 4 * b + c + 1"
  show ?thesis
  proof (cases "c = 3")
    case False
    have "?y mod 4 = c + 1"
      using assms False by (intro int_mod_pos_eq[where q = "100 * q + 25 * a + b"]) auto
    then show ?thesis using assms False by (simp add: is_leap_def)
  next
    case c3: True
    have m4: "?y mod 4 = 0"
      using c3 by (intro int_mod_pos_eq[where q = "100 * q + 25 * a + b + 1"]) auto
    show ?thesis
    proof (cases "b = 24")
      case False
      have "?y mod 100 = 4 * b + 4"
        using assms c3 False by (intro int_mod_pos_eq[where q = "4 * q + a"]) auto
      then show ?thesis using assms c3 False m4 by (simp add: is_leap_def)
    next
      case b24: True
      have m100: "?y mod 100 = 0"
        using c3 b24 by (intro int_mod_pos_eq[where q = "4 * q + a + 1"]) auto
      show ?thesis
      proof (cases "a = 3")
        case True
        have "?y mod 400 = 0"
          using c3 b24 True by (intro int_mod_pos_eq[where q = "q + 1"]) auto
        then show ?thesis using c3 b24 True m4 m100 by (simp add: is_leap_def)
      next
        case False
        have "?y mod 400 = 100 * a + 100"
          using assms c3 b24 False by (intro int_mod_pos_eq[where q = "q"]) auto
        then show ?thesis using assms c3 b24 False m4 m100 by (simp add: is_leap_def)
      qed
    qed
  qed
qed

lemma month_cases:
  assumes "1 \<le> (m::int)" "m \<le> 12"
  shows "m = 1 \<or> m = 2 \<or> m = 3 \<or> m = 4 \<or> m = 5 \<or> m = 6 \<or> m = 7 \<or> m = 8 \<or> m = 9
         \<or> m = 10 \<or> m = 11 \<or> m = 12"
  using assms by presburger

lemma month_day_ok:
  assumes "0 \<le> r" "r < (if lp then 366 else 365)"
  shows "md_ok lp r (month_day lp r)"
proof -
  define mon where "mon = (r + 50) div 32"
  have "r \<le> 365" using assms(2) by (simp split: if_splits)
  then have "1 \<le> mon" "mon \<le> 12" using assms(1) unfolding mon_def by linarith+
  then consider "mon = 1" | "mon = 2" | "mon = 3" | "mon = 4" | "mon = 5" | "mon = 6" | "mon = 7" | "mon = 8" | "mon = 9" | "mon = 10" | "mon = 11" | "mon = 12"
    using month_cases by blast
  then show ?thesis
  proof cases
  
    case 1
    have "-18 \<le> r" "r \<le> 13" using 1 unfolding mon_def by linarith+
    then show ?thesis
      using assms unfolding month_day_def Let_def mon_def[symmetric] 1 md_ok_def
      by (simp add: DAYS_BEFORE_MONTH_def DAYS_IN_MONTH_def split: if_splits)
  next
    case 2
    have "14 \<le> r" "r \<le> 45" using 2 unfolding mon_def by linarith+
    then show ?thesis
      using assms unfolding month_day_def Let_def mon_def[symmetric] 2 md_ok_def
      by (simp add: DAYS_BEFORE_MONTH_def DAYS_IN_MONTH_def split: if_splits)
  next
    case 3
    have "46 \<le> r" "r \<le> 77" using 3 unfolding mon_def by linarith+
    then show ?thesis
      using assms unfolding month_day_def Let_def mon_def[symmetric] 3 md_ok_def
      by (simp add: DAYS_BEFORE_MONTH_def DAYS_IN_MONTH_def split: if_splits)
  next
    case 4
    have "78 \<le> r" "r \<le> 109" using 4 unfolding mon_def by linarith+
    then show ?thesis
      using assms unfolding month_day_def Let_def mon_def[symmetric] 4 md_ok_def
      by (simp add: DAYS_BEFORE_MONTH_def DAYS_IN_MONTH_def split: if_splits)
  next
    case 5
    have "110 \<le> r" "r \<le> 141" using 5 unfolding mon_def by linarith+
    then show ?thesis
      using assms unfolding month_day_def Let_def mon_def[symmetric] 5 md_ok_def
      by (simp add: DAYS_BEFORE_MONTH_def DAYS_IN_MONTH_def split: if_splits)
  next
    case 6
    have "142 \<le> r" "r \<le> 173" using 6 unfolding mon_def by linarith+
    then show ?thesis
      using assms unfolding month_day_def Let_def mon_def[symmetric] 6 md_ok_def
      by (simp add: DAYS_BEFORE_MONTH_def DAYS_IN_MONTH_def split: if_splits)
  next
    case 7
    have "174 \<le> r" "r \<le> 205" using 7 unfolding mon_def by linarith+
    then show ?thesis
      using assms unfolding month_day_def Let_def mon_def[symmetric] 7 md_ok_def
      by (simp add: DAYS_BEFORE_MONTH_def DAYS_IN_MONTH_def split: if_splits)
  next
    case 8
    have "206 \<le> r" "r \<le> 237" using 8 unfolding mon_def by linarith+
    then show ?thesis
      using assms unfolding month_day_def Let_def mon_def[symmetric] 8 md_ok_def
      by (simp add: DAYS_BEFORE_MONTH_def DAYS_IN_MONTH_def split: if_splits)
  next
    case 9
    have "238 \<le> r" "r \<le> 269" using 9 unfolding mon_def by linarith+
    then show ?thesis
      using assms unfolding month_day_def Let_def mon_def[symmetric] 9 md_ok_def
      by (simp add: DAYS_BEFORE_MONTH_def DAYS_IN_MONTH_def split: if_splits)
  next
    case 10
    have "270 \<le> r" "r \<le> 301" using 10 unfolding mon_def by linarith+
    then show ?thesis
      using assms unfolding month_day_def Let_def mon_def[symmetric] 10 md_ok_def
      by (simp add: DAYS_BEFORE_MONTH_def DAYS_IN_MONTH_def split: if_splits)
  next
    case 11
    have "302 \<le> r" "r \<le> 333" using 11 unfolding mon_def by linarith+
    then show ?thesis
      using assms unfolding month_day_def Let_def mon_def[symmetric] 11 md_ok_def
      by (simp add: DAYS_BEFORE_MONTH_def DAYS_IN_MONTH_def split: if_splits)
  next
    case 12
    have "334 \<le> r" "r \<le> 365" using 12 unfolding mon_def by linarith+
    then show ?thesis
      using assms unfolding month_day_def Let_def mon_def[symmetric] 12 md_ok_def
      by (simp add: DAYS_BEFORE_MONTH_def DAYS_IN_MONTH_def split: if_splits)
  qed
qed

lemma DI_consts: "DI400Y = 146097" "DI100Y = 36524" "DI4Y = 1461"
  by (simp_all add: DI400Y_def DI100Y_def DI4Y_def days_before_year_def)

lemma if_pair_tail:
  "(if C then X else if D then (a, b, c) else (a, b', c')) =
   (if C then X else (a, fst (if D then (b, c) else (b', c')), snd (if D then (b, c) else (b', c'))))"
  by simp

lemma ord2ymd_unfold:
  fixes n :: int
  defines "n0 \<equiv> n - 1"
  defines "n400 \<equiv> n0 div 146097" and "r400 \<equiv> n0 mod 146097"
  defines "n100 \<equiv> r400 div 36524" and "r100 \<equiv> r400 mod 36524"
  defines "n4 \<equiv> r100 div 1461" and "r4 \<equiv> r100 mod 1461"
  defines "n1 \<equiv> r4 div 365" and "r1 \<equiv> r4 mod 365"
  shows "ord2ymd n =
      (if n1 = 4 \<or> n100 = 4 then (n400 * 400 + 1 + (n100 * 100 + n4 * 4 + n1) - 1, 12, 31)
       else (n400 * 400 + 1 + (n100 * 100 + n4 * 4 + n1),
             fst (month_day (n1 = 3 \<and> (n4 \<noteq> 24 \<or> n100 = 3)) r1),
             snd (month_day (n1 = 3 \<and> (n4 \<noteq> 24 \<or> n100 = 3)) r1)))"
  unfolding ord2ymd_def month_day_def Let_def DI_consts
    n1_def r1_def n4_def r4_def n100_def r100_def n400_def r400_def n0_def
  by (rule if_pair_tail)

lemma divmod_split:
  fixes x b :: int
  assumes "0 < b"
  shows "x = b * (x div b) + x mod b \<and> 0 \<le> x mod b \<and> x mod b < b"
  using assms by simp

lemma ord2ymd_correct:
  assumes "ord2ymd n = (y, m, d)"
  shows "1 \<le> m \<and> m \<le> 12 \<and> 1 \<le> d \<and> d \<le> days_in_month y m \<and> ymd2ord y m d = n"
proof -
  define n0 where "n0 = n - 1"
  define n400 where "n400 = n0 div 146097"
  define r400 where "r400 = n0 mod 146097"
  define n100 where "n100 = r400 div 36524"
  define r100 where "r100 = r400 mod 36524"
  define n4 where "n4 = r100 div 1461"
  define r4 where "r4 = r100 mod 1461"
  define n1 where "n1 = r4 div 365"
  define r1 where "r1 = r4 mod 365"
  define lp where "lp \<longleftrightarrow> n1 = 3 \<and> (n4 \<noteq> 24 \<or> n100 = 3)"
  have e400: "n0 = 146097 * n400 + r400" "0 \<le> r400" "r400 < 146097"
    unfolding n400_def r400_def using divmod_split[of 146097 n0] by simp_all
  have e100: "r400 = 36524 * n100 + r100" "0 \<le> r100" "r100 < 36524"
    unfolding n100_def r100_def using divmod_split[of 36524 r400] by simp_all
  have e4: "r100 = 1461 * n4 + r4" "0 \<le> r4" "r4 < 1461"
    unfolding n4_def r4_def using divmod_split[of 1461 r100] by simp_all
  have e1: "r4 = 365 * n1 + r1" "0 \<le> r1" "r1 < 365"
    unfolding n1_def r1_def using divmod_split[of 365 r4] by simp_all
  have b100: "0 \<le> n100" "n100 \<le> 4" using e400 e100 by linarith+
  have b4: "0 \<le> n4" "n4 \<le> 24" using e100 e4 by linarith+
  have b1: "0 \<le> n1" "n1 \<le> 4" using e4 e1 by linarith+
  have res: "(y, m, d) =
      (if n1 = 4 \<or> n100 = 4 then (n400 * 400 + 1 + (n100 * 100 + n4 * 4 + n1) - 1, 12, 31)
       else (n400 * 400 + 1 + (n100 * 100 + n4 * 4 + n1), fst (month_day lp r1), snd (month_day lp r1)))"
    using assms ord2ymd_unfold[of n]
    unfolding n0_def n400_def r400_def n100_def r100_def n4_def r4_def n1_def r1_def lp_def
    by (rule trans[OF sym])
  have yr: "n400 * 400 + 1 + (n100 * 100 + n4 * 4 + n1) = 400 * n400 + 100 * n100 + 4 * n4 + n1 + 1"
    by simp
  have tab: "days_before_month y 12 + 31 = (if is_leap y then 366 else 365)" "days_in_month y 12 = 31"
    by (simp_all add: days_before_month_def days_in_month_def DAYS_BEFORE_MONTH_def DAYS_IN_MONTH_def)
  consider (A) "n100 = 4" | (B) "n100 \<noteq> 4" "n1 = 4" | (C) "n100 \<noteq> 4" "n1 \<noteq> 4" by blast
  then show ?thesis
  proof cases
    case A
    have z: "r100 = 0" using A e400 e100 by linarith
    have "n4 = 0" and r4z: "r4 = 0" unfolding n4_def r4_def z by simp_all
    have "n1 = 0" "r1 = 0" unfolding n1_def r1_def r4z by simp_all
    have ymd: "y = 400 * n400 + 100 * 3 + 4 * 24 + 3 + 1" "m = 12" "d = 31"
      using res A \<open>n4 = 0\<close> \<open>n1 = 0\<close> by simp_all
    have dby: "days_before_year y = 146097 * n400 + 36524 * 3 + 1461 * 24 + 365 * 3"
      unfolding ymd(1) by (rule year_decomp_dby) simp_all
    have lpy: "is_leap y"
      unfolding ymd(1) by (subst year_decomp_leap) simp_all
    have "n = 146097 * n400 + 146097" using e400 e100 z A n0_def by linarith
    then show ?thesis
      using dby lpy tab unfolding ymd(2,3) ymd2ord_def by simp
  next
    case B
    have r: "r1 = 0" "r4 = 1460" using B e1 e4 by linarith+
    have n4b: "n4 \<le> 23" using r e4 e100 by linarith
    have a: "n100 \<le> 3" using B b100 by linarith
    have ymd: "y = 400 * n400 + 100 * n100 + 4 * n4 + 3 + 1" "m = 12" "d = 31"
      using res B by simp_all
    have dby: "days_before_year y = 146097 * n400 + 36524 * n100 + 1461 * n4 + 365 * 3"
      unfolding ymd(1) using a b100 b4 n4b by (intro year_decomp_dby) simp_all
    have lpy: "is_leap y"
      unfolding ymd(1) using a b100 b4 n4b by (subst year_decomp_leap) simp_all
    have "n = 146097 * n400 + 36524 * n100 + 1461 * n4 + 1461"
      using e400 e100 e4 r n0_def by linarith
    then show ?thesis
      using dby lpy tab unfolding ymd(2,3) ymd2ord_def by simp
  next
    case C
    have a: "n100 \<le> 3" "n1 \<le> 3" using C b100 b1 by linarith+
    have ymd: "y = 400 * n400 + 100 * n100 + 4 * n4 + n1 + 1" "m = fst (month_day lp r1)" "d = snd (month_day lp r1)"
      using res C yr by (auto dest: arg_cong[where f = fst] arg_cong[where f = snd])
    have dby: "days_before_year y = 146097 * n400 + 36524 * n100 + 1461 * n4 + 365 * n1"
      unfolding ymd(1) using a b100 b4 b1 by (intro year_decomp_dby) simp_all
    have lpy: "is_leap y \<longleftrightarrow> lp"
      unfolding ymd(1) lp_def using a b100 b4 b1 by (intro year_decomp_leap) simp_all
    have "md_ok lp r1 (month_day lp r1)"
      using e1 by (intro month_day_ok) (simp_all split: if_splits)
    then have ok: "1 \<le> m" "m \<le> 12" "1 \<le> d" "d \<le> (if m = 2 \<and> lp then 29 else DAYS_IN_MONTH ! nat m)"
        "DAYS_BEFORE_MONTH ! nat m + (if m > 2 \<and> lp then 1 else 0) + d = r1 + 1"
      unfolding ymd(2,3) md_ok_def by (simp_all add: case_prod_beta)
    have "n = 146097 * n400 + 36524 * n100 + 1461 * n4 + 365 * n1 + r1 + 1"
      using e400 e100 e4 e1 n0_def by linarith
    then show ?thesis
      using dby lpy ok
      by (simp add: ymd2ord_def days_in_month_def days_before_month_def)
  qed
qed

lemma div_pred:
  fixes y k :: int
  assumes "0 < k"
  shows "(y - 1) div k = y div k - (if y mod k = 0 then 1 else 0)"
proof (cases "y mod k = 0")
  case True
  have "y = k * (y div k)" using True by (simp add: mod_eq_0_iff_dvd)
  then have "y - 1 = k * (y div k - 1) + (k - 1)" by (simp add: algebra_simps)
  then have "(y - 1) div k = y div k - 1"
    using assms by (intro int_div_pos_eq[where r = "k - 1"]) simp_all
  then show ?thesis using True by simp
next
  case False
  have "0 \<le> y mod k" "y mod k < k" using assms by simp_all
  then have r: "0 \<le> y mod k - 1" "y mod k - 1 < k" using False by linarith+
  have "y = k * (y div k) + y mod k" by simp
  then have "y - 1 = k * (y div k) + (y mod k - 1)" by linarith
  then have "(y - 1) div k = y div k"
    using r by (intro int_div_pos_eq[where r = "y mod k - 1"]) simp_all
  then show ?thesis using False by simp
qed

lemma mod_100_4: "(y::int) mod 100 = 0 \<Longrightarrow> y mod 4 = 0"
proof -
  assume "y mod 100 = 0"
  then have "100 dvd y" by (simp add: mod_eq_0_iff_dvd)
  moreover have "(4::int) dvd 100" by simp
  ultimately have "4 dvd y" by (rule dvd_trans[rotated])
  then show ?thesis by (simp add: mod_eq_0_iff_dvd)
qed

lemma mod_400_100: "(y::int) mod 400 = 0 \<Longrightarrow> y mod 100 = 0"
proof -
  assume "y mod 400 = 0"
  then have "400 dvd y" by (simp add: mod_eq_0_iff_dvd)
  moreover have "(100::int) dvd 400" by simp
  ultimately have "100 dvd y" by (rule dvd_trans[rotated])
  then show ?thesis by (simp add: mod_eq_0_iff_dvd)
qed

lemma leap_count:
  fixes A B C :: bool
  assumes "B \<longrightarrow> A" "C \<longrightarrow> B"
  shows "(365::int) + (if A then 1 else 0) - (if B then 1 else 0) + (if C then 1 else 0)
         = (if A \<and> (\<not> B \<or> C) then 366 else 365)"
  using assms by (cases A; cases B; cases C) simp_all

lemma step_arith:
  fixes L R :: int
  assumes "L = y * 365 + q4 - q100 + q400"
    and "R = (y - 1) * 365 + (q4 - e4) - (q100 - e100) + (q400 - e400)"
  shows "L = R + (365 + e4 - e100 + e400)"
  using assms by simp

lemma dby_step: "days_before_year (y + 1) = days_before_year y + year_len y"
proof -
  define e4 :: int where "e4 = (if y mod 4 = 0 then 1 else 0)"
  define e100 :: int where "e100 = (if y mod 100 = 0 then 1 else 0)"
  define e400 :: int where "e400 = (if y mod 400 = 0 then 1 else 0)"
  have a: "(y - 1) div 4 = y div 4 - e4"
    unfolding e4_def by (rule div_pred) simp
  have b: "(y - 1) div 100 = y div 100 - e100"
    unfolding e100_def by (rule div_pred) simp
  have c: "(y - 1) div 400 = y div 400 - e400"
    unfolding e400_def by (rule div_pred) simp
  have y1: "y + 1 - 1 = y" by simp
  have L: "days_before_year (y + 1) = y * 365 + y div 4 - y div 100 + y div 400"
    unfolding days_before_year_def Let_def y1 by (rule refl)
  have R: "days_before_year y = (y - 1) * 365 + (y div 4 - e4) - (y div 100 - e100) + (y div 400 - e400)"
    unfolding days_before_year_def Let_def a b c by (rule refl)
  have D: "days_before_year (y + 1) = days_before_year y + (365 + e4 - e100 + e400)"
    by (rule step_arith[OF L R])
  have E: "365 + e4 - e100 + e400 = year_len y"
    unfolding e4_def e100_def e400_def year_len_def is_leap_def
    by (rule leap_count) (use mod_100_4[of y] mod_400_100[of y] in blast)+
  show ?thesis unfolding D E by (rule refl)
qed

lemma dby_mono: "y \<le> y' \<Longrightarrow> days_before_year y \<le> days_before_year y'"
proof (induction y' rule: int_ge_induct)
  case base
  show ?case by simp
next
  case (step i)
  have "0 < year_len i" by (simp add: year_len_def)
  moreover have "days_before_year (i + 1) = days_before_year i + year_len i" by (rule dby_step)
  ultimately show ?case using step.IH by linarith
qed

lemmas month_tables = days_before_month_def days_in_month_def DAYS_BEFORE_MONTH_def DAYS_IN_MONTH_def

lemma dbm_succ:
  assumes "1 \<le> m" "m < 12"
  shows "days_before_month y (m + 1) = days_before_month y m + days_in_month y m"
proof -
  have "m \<le> 12" using assms by simp
  from month_cases[OF assms(1) this] assms(2) show ?thesis
    by (elim disjE) (simp_all add: month_tables)
qed

lemma dim_bounds:
  assumes "1 \<le> m" "m \<le> 12"
  shows "28 \<le> days_in_month y m" "days_in_month y m \<le> 31"
  using month_cases[OF assms] by (elim disjE; simp add: month_tables)+

lemma dbm_first: "days_before_month y 1 = 0"
  by (simp add: month_tables)

lemma dbm_last: "days_before_month y 12 + 31 = year_len y"
  by (simp add: month_tables year_len_def)

lemma dbm_mono:
  assumes "1 \<le> m" "m \<le> m'" "m' \<le> 12"
  shows "days_before_month y m \<le> days_before_month y m'"
  using assms(2,3)
proof (induction m' rule: int_ge_induct)
  case base
  show ?case by simp
next
  case (step i)
  have i: "1 \<le> i" "i < 12" using assms(1) step by linarith+
  have "days_before_month y (i + 1) = days_before_month y i + days_in_month y i"
    using i by (rule dbm_succ)
  moreover have "28 \<le> days_in_month y i" using i by (intro dim_bounds) simp_all
  moreover have "days_before_month y m \<le> days_before_month y i" using step i by simp
  ultimately show ?case by linarith
qed

lemma doy_bounds:
  assumes "valid_ymd y m d"
  shows "1 \<le> days_before_month y m + d" "days_before_month y m + d \<le> year_len y"
proof -
  have v: "1 \<le> m" "m \<le> 12" "1 \<le> d" "d \<le> days_in_month y m"
    using assms by (simp_all add: valid_ymd_def)
  have "days_before_month y 1 \<le> days_before_month y m" using v by (intro dbm_mono) simp_all
  then show "1 \<le> days_before_month y m + d" using v(3) dbm_first[of y] by linarith
  show "days_before_month y m + d \<le> year_len y"
  proof (cases "m = 12")
    case True
    have "days_in_month y 12 \<le> 31" by (intro dim_bounds) simp_all
    then show ?thesis using v(4) True dbm_last[of y] by simp
  next
    case False
    then have lt: "m < 12" using v by simp
    have "days_before_month y (m + 1) = days_before_month y m + days_in_month y m"
      using v(1) lt by (rule dbm_succ)
    moreover have "days_before_month y (m + 1) \<le> days_before_month y 12"
      using v lt by (intro dbm_mono) simp_all
    ultimately show ?thesis using v(4) dbm_last[of y] by linarith
  qed
qed

lemma ymd2ord_less_year:
  assumes "valid_ymd y m d" "valid_ymd y' m' d'" "y < y'"
  shows "ymd2ord y m d < ymd2ord y' m' d'"
proof -
  have "ymd2ord y m d \<le> days_before_year y + year_len y"
    using doy_bounds(2)[OF assms(1)] by (simp add: ymd2ord_def)
  also have "\<dots> = days_before_year (y + 1)" by (simp add: dby_step)
  also have "\<dots> \<le> days_before_year y'" using assms(3) by (intro dby_mono) simp
  also have "\<dots> < ymd2ord y' m' d'"
    using doy_bounds(1)[OF assms(2)] by (simp add: ymd2ord_def)
  finally show ?thesis .
qed

lemma ymd2ord_less_month:
  assumes "valid_ymd y m d" "valid_ymd y m' d'" "m < m'"
  shows "ymd2ord y m d < ymd2ord y m' d'"
proof -
  have v: "1 \<le> m" "m \<le> 12" "1 \<le> d" "d \<le> days_in_month y m"
    using assms(1) by (simp_all add: valid_ymd_def)
  have v': "1 \<le> m'" "m' \<le> 12" "1 \<le> d'"
    using assms(2) by (simp_all add: valid_ymd_def)
  have lt: "m < 12" using assms(3) v' by simp
  have "days_before_month y (m + 1) = days_before_month y m + days_in_month y m"
    using v(1) lt by (rule dbm_succ)
  moreover have "days_before_month y (m + 1) \<le> days_before_month y m'"
    using v v' assms(3) by (intro dbm_mono) simp_all
  ultimately have "days_before_month y m + d < days_before_month y m' + d'"
    using v(4) v'(3) by linarith
  then show ?thesis by (simp add: ymd2ord_def)
qed

lemma ymd2ord_inj:
  assumes "valid_ymd y m d" "valid_ymd y' m' d'" "ymd2ord y m d = ymd2ord y' m' d'"
  shows "y = y' \<and> m = m' \<and> d = d'"
proof -
  have y: "y = y'"
    using ymd2ord_less_year[OF assms(1,2)] ymd2ord_less_year[OF assms(2,1)] assms(3)
    by (cases y y' rule: linorder_cases) simp_all
  have m: "m = m'"
    using ymd2ord_less_month[OF assms(1) assms(2)[folded y]]
          ymd2ord_less_month[OF assms(2)[folded y] assms(1)] assms(3) y
    by (cases m m' rule: linorder_cases) simp_all
  have "d = d'" using assms(3) y m by (simp add: ymd2ord_def)
  then show ?thesis using y m by simp
qed

lemma ord2ymd_valid:
  assumes "ord2ymd n = (y, m, d)"
  shows "valid_ymd y m d" "ymd2ord y m d = n"
  using ord2ymd_correct[OF assms] by (simp_all add: valid_ymd_def)

lemma ord2ymd_ymd2ord:
  assumes "valid_ymd y m d"
  shows "ord2ymd (ymd2ord y m d) = (y, m, d)"
proof -
  obtain y' m' d' where e: "ord2ymd (ymd2ord y m d) = (y', m', d')"
    by (cases "ord2ymd (ymd2ord y m d)")
  have "y' = y \<and> m' = m \<and> d' = d"
    using ord2ymd_valid[OF e] assms by (intro ymd2ord_inj) simp_all
  then show ?thesis using e by simp
qed

lemma dby_1: "days_before_year 1 = 0"
  by (simp add: days_before_year_def)

lemma dby_10000: "days_before_year 10000 = 3652059"
  by (simp add: days_before_year_def)

lemma ymd2ord_range:
  assumes "valid_ymd y m d" "1 \<le> y" "y \<le> 9999"
  shows "1 \<le> ymd2ord y m d" "ymd2ord y m d \<le> 3652059"
proof -
  have "days_before_year 1 \<le> days_before_year y" using assms(2) by (rule dby_mono)
  then show "1 \<le> ymd2ord y m d"
    using doy_bounds(1)[OF assms(1)] dby_1 by (simp add: ymd2ord_def)
  have "days_before_year (y + 1) \<le> days_before_year 10000"
    using assms(3) by (intro dby_mono) simp
  then show "ymd2ord y m d \<le> 3652059"
    using doy_bounds(2)[OF assms(1)] dby_step[of y] dby_10000 by (simp add: ymd2ord_def)
qed

lemma ord2ymd_year_range:
  assumes "ord2ymd n = (y, m, d)" "1 \<le> n" "n \<le> 3652059"
  shows "1 \<le> y" "y \<le> 9999"
proof -
  note v = ord2ymd_valid[OF assms(1)]
  show "1 \<le> y"
  proof (rule ccontr)
    assume "\<not> 1 \<le> y"
    then have "days_before_year (y + 1) \<le> days_before_year 1" by (intro dby_mono) simp
    then have "ymd2ord y m d \<le> 0"
      using doy_bounds(2)[OF v(1)] dby_step[of y] dby_1 by (simp add: ymd2ord_def)
    then show False using v(2) assms(2) by simp
  qed
  show "y \<le> 9999"
  proof (rule ccontr)
    assume "\<not> y \<le> 9999"
    then have "days_before_year 10000 \<le> days_before_year y" by (intro dby_mono) simp
    then have "3652059 < ymd2ord y m d"
      using doy_bounds(1)[OF v(1)] dby_10000 by (simp add: ymd2ord_def)
    then show False using v(2) assms(3) by simp
  qed
qed

section \<open>Ordinal subtraction is calendar subtraction\<close>

lemma valid_datetime_ymd:
  assumes "valid_datetime dt"
  shows "valid_ymd (year dt) (month dt) (day dt)" "1 \<le> year dt" "year dt \<le> 9999"
  using assms by (simp_all add: valid_datetime_def valid_ymd_def MINYEAR_def MAXYEAR_def)

lemma toordinal_range:
  assumes "valid_datetime dt"
  shows "1 \<le> toordinal dt" "toordinal dt \<le> MAXORDINAL"
  using ymd2ord_range[OF valid_datetime_ymd[OF assms]]
  by (simp_all add: toordinal_def MAXORDINAL_def)

lemma ymd2ord_111: "ymd2ord 1 1 1 = 1"
  by (simp add: ymd2ord_def dby_1 dbm_first)

lemma valid_ymd_111: "valid_ymd 1 1 1"
  by (simp add: valid_ymd_def month_tables)

lemma toordinal_1:
  assumes "valid_datetime dt"
  shows "toordinal dt = 1 \<longleftrightarrow> year dt = 1 \<and> month dt = 1 \<and> day dt = 1"
proof
  assume "toordinal dt = 1"
  then have "ymd2ord (year dt) (month dt) (day dt) = ymd2ord 1 1 1"
    by (simp add: toordinal_def ymd2ord_111)
  from ymd2ord_inj[OF valid_datetime_ymd(1)[OF assms] valid_ymd_111 this]
  show "year dt = 1 \<and> month dt = 1 \<and> day dt = 1" .
next
  assume "year dt = 1 \<and> month dt = 1 \<and> day dt = 1"
  then show "toordinal dt = 1" by (simp add: toordinal_def ymd2ord_111)
qed

lemma with_date_toordinal:
  assumes "valid_datetime dt"
  shows "with_date dt (toordinal dt) = dt"
  using ord2ymd_ymd2ord[OF valid_datetime_ymd(1)[OF assms]]
  by (simp add: with_date_def toordinal_def)

lemma with_date_update:
  "with_date (dt\<lparr>year := y\<rparr>) n = with_date dt n"
  "with_date (dt\<lparr>month := m\<rparr>) n = with_date dt n"
  "with_date (dt\<lparr>day := d\<rparr>) n = with_date dt n"
  by (simp_all add: with_date_def split: prod.splits)

lemma calendar_prev_day_first:
  assumes "valid_datetime dt" "toordinal dt = 1"
  shows "calendar_prev_day dt = None"
  using assms toordinal_1[OF assms(1)] by (simp add: calendar_prev_day_def MINYEAR_def)

lemma calendar_prev_day_later:
  assumes "valid_datetime dt" "toordinal dt \<noteq> 1"
  shows "\<exists>dt'. calendar_prev_day dt = Some dt' \<and> valid_datetime dt'
           \<and> toordinal dt' = toordinal dt - 1 \<and> (\<forall>n. with_date dt' n = with_date dt n)"
proof -
  have v: "1 \<le> year dt" "year dt \<le> 9999" "1 \<le> month dt" "month dt \<le> 12"
      "1 \<le> day dt" "day dt \<le> days_in_month (year dt) (month dt)"
    using assms(1) by (simp_all add: valid_datetime_def MINYEAR_def MAXYEAR_def)
  consider (D) "1 < day dt" | (M) "day dt = 1" "1 < month dt"
    | (Y) "day dt = 1" "month dt = 1" "1 < year dt"
    using v assms(2) toordinal_1[OF assms(1)] by force
  then show ?thesis
  proof cases
    case D
    let ?r = "dt\<lparr>day := day dt - 1\<rparr>"
    have "calendar_prev_day dt = Some ?r" using D by (simp add: calendar_prev_day_def)
    moreover have "valid_datetime ?r" using assms(1) D by (simp add: valid_datetime_def)
    moreover have "toordinal ?r = toordinal dt - 1" by (simp add: toordinal_def ymd2ord_def)
    ultimately show ?thesis by (simp add: with_date_update)
  next
    case M
    let ?m = "month dt - 1"
    let ?r = "dt\<lparr>month := ?m, day := days_in_month (year dt) ?m\<rparr>"
    have m: "1 \<le> ?m" "?m < 12" using M v by simp_all
    have "calendar_prev_day dt = Some ?r" using M by (simp add: calendar_prev_day_def)
    moreover have "28 \<le> days_in_month (year dt) ?m" using m by (intro dim_bounds) simp_all
    then have "valid_datetime ?r" using assms(1) m by (simp add: valid_datetime_def)
    moreover have "days_before_month (year dt) (?m + 1)
        = days_before_month (year dt) ?m + days_in_month (year dt) ?m"
      using m by (rule dbm_succ)
    then have "toordinal ?r = toordinal dt - 1" using M by (simp add: toordinal_def ymd2ord_def)
    ultimately show ?thesis by (simp add: with_date_update)
  next
    case Y
    let ?r = "dt\<lparr>year := year dt - 1, month := 12, day := 31\<rparr>"
    have "calendar_prev_day dt = Some ?r" using Y by (simp add: calendar_prev_day_def MINYEAR_def)
    moreover have "days_in_month (year dt - 1) 12 = 31" by (simp add: month_tables)
    then have "valid_datetime ?r" using assms(1) Y v
      by (simp add: valid_datetime_def MINYEAR_def MAXYEAR_def)
    moreover have "days_before_year (year dt - 1 + 1) = days_before_year (year dt - 1) + year_len (year dt - 1)"
      by (rule dby_step)
    then have "toordinal ?r = toordinal dt - 1"
      using Y dbm_last[of "year dt - 1"] dbm_first[of "year dt"] by (simp add: toordinal_def ymd2ord_def)
    ultimately show ?thesis by (simp add: with_date_update)
  qed
qed

lemma calendar_days_before_ordinal:
  assumes "valid_datetime dt"
  shows "calendar_days_before k dt =
           (if int k < toordinal dt then Some (with_date dt (toordinal dt - int k)) else None)"
  using assms
proof (induction k arbitrary: dt)
  case 0
  then show ?case using toordinal_range(1)[OF 0] by (simp add: with_date_toordinal)
next
  case (Suc k)
  show ?case
  proof (cases "toordinal dt = 1")
    case True
    then show ?thesis using calendar_prev_day_first[OF Suc.prems True] by simp
  next
    case False
    from calendar_prev_day_later[OF Suc.prems False] obtain dt' where
      p: "calendar_prev_day dt = Some dt'" "valid_datetime dt'"
         "toordinal dt' = toordinal dt - 1" "\<And>n. with_date dt' n = with_date dt n"
      by blast
    have c: "int k < toordinal dt - 1 \<longleftrightarrow> int (Suc k) < toordinal dt" by linarith
    have w: "with_date dt (toordinal dt - 1 - int k) = with_date dt (toordinal dt - int (Suc k))"
      by (rule arg_cong[where f = "with_date dt"]) simp
    have "calendar_days_before (Suc k) dt = calendar_days_before k dt'"
      using p(1) by simp
    also have "\<dots> = (if int k < toordinal dt - 1
                         then Some (with_date dt (toordinal dt - 1 - int k)) else None)"
      unfolding Suc.IH[OF p(2)] p(3) p(4) by (rule refl)
    finally show ?thesis unfolding c w .
  qed
qed

lemma datetime_sub_days:
  assumes "valid_datetime dt"
  shows "datetime_sub dt \<lparr>days = int k\<rparr> =
           (case calendar_days_before k dt of None \<Rightarrow> Inl OverflowError | Some dt' \<Rightarrow> Inr dt')"
proof -
  have "toordinal dt - int k \<le> MAXORDINAL" using toordinal_range(2)[OF assms] by simp
  then show ?thesis
    unfolding calendar_days_before_ordinal[OF assms]
    by (simp add: datetime_sub_def with_date_def Let_def split: prod.splits)
qed

lemma date_le_toordinal:
  assumes "valid_datetime a" "valid_datetime b"
  shows "date_le a b \<longleftrightarrow> toordinal a \<le> toordinal b"
proof -
  note va = valid_datetime_ymd(1)[OF assms(1)]
  note vb = valid_datetime_ymd(1)[OF assms(2)]
  consider (yl) "year a < year b" | (yg) "year b < year a"
    | (ml) "year a = year b" "month a < month b" | (mg) "year a = year b" "month b < month a"
    | (d) "year a = year b" "month a = month b"
    by linarith
  then show ?thesis
  proof cases
    case yl
    then show ?thesis using ymd2ord_less_year[OF va vb] by (simp add: date_le_def toordinal_def)
  next
    case yg
    then show ?thesis using ymd2ord_less_year[OF vb va] by (simp add: date_le_def toordinal_def)
  next
    case ml
    then show ?thesis using ymd2ord_less_month[OF va[unfolded ml(1)] vb]
      by (simp add: date_le_def toordinal_def)
  next
    case mg
    then show ?thesis using ymd2ord_less_month[OF vb va[unfolded mg(1)]]
      by (simp add: date_le_def toordinal_def)
  next
    case d
    then show ?thesis by (simp add: date_le_def toordinal_def ymd2ord_def)
  qed
qed

lemma calendar_days_before_props:
  assumes "valid_datetime now" "calendar_days_before k now = Some start"
  shows "valid_datetime start" "toordinal now - toordinal start = int k" "date_le start now"
proof -
  have lt: "int k < toordinal now" and s: "start = with_date now (toordinal now - int k)"
    using assms(2) unfolding calendar_days_before_ordinal[OF assms(1)] by (simp_all split: if_splits)
  obtain y m d where o: "ord2ymd (toordinal now - int k) = (y, m, d)"
    by (cases "ord2ymd (toordinal now - int k)")
  have st: "start = now\<lparr>year := y, month := m, day := d\<rparr>"
    using s o by (simp add: with_date_def)
  have r: "1 \<le> toordinal now - int k" "toordinal now - int k \<le> 3652059"
    using lt toordinal_range(2)[OF assms(1)] by (simp_all add: MAXORDINAL_def)
  note v = ord2ymd_valid[OF o]
  note yr = ord2ymd_year_range[OF o r]
  show vs: "valid_datetime start"
    using assms(1) v(1) yr unfolding st
    by (simp add: valid_datetime_def valid_ymd_def MINYEAR_def MAXYEAR_def)
  show "toordinal now - toordinal start = int k"
    using v(2) unfolding st by (simp add: toordinal_def)
  then have "toordinal start \<le> toordinal now" by simp
  then show "date_le start now" using date_le_toordinal[OF vs assms(1)] by simp
qed

lemma calendar_days_before_Some:
  assumes "valid_datetime now" "int k < toordinal now"
  shows "\<exists>start. calendar_days_before k now = Some start"
  using assms by (simp add: calendar_days_before_ordinal)

lemma calendar_days_before_None:
  assumes "valid_datetime now" "toordinal now \<le> int k"
  shows "calendar_days_before k now = None"
  using assms by (simp add: calendar_days_before_ordinal)

lemma sub_range_before:
  assumes "valid_datetime now"
  shows "(case datetime_sub now \<lparr>days = int k\<rparr> of Inl e \<Rightarrow> Inl e
          | Inr from_date \<Rightarrow> Inr (strftime from_date ''%Y-%m-%d'', strftime now ''%Y-%m-%d''))
         = range_before k now"
  unfolding datetime_sub_days[OF assms] range_before_def iso_format_def
  by (simp split: option.splits)

lemma timedelta_values:
  "timedelta_kw 7 0 = \<lparr>days = int 7\<rparr>" "timedelta_kw 0 4 = \<lparr>days = int 28\<rparr>"
  "timedelta_kw 30 0 = \<lparr>days = int 30\<rparr>" "timedelta_kw 90 0 = \<lparr>days = int 90\<rparr>"
  "timedelta_kw 180 0 = \<lparr>days = int 180\<rparr>"
  by (simp_all add: timedelta_kw_def)

lemma case_if_push:
  "(case (if c then A else B) of Inl e \<Rightarrow> Inl e | Inr d \<Rightarrow> Inr (f d)) =
   (if c then (case A of Inl e \<Rightarrow> Inl e | Inr d \<Rightarrow> Inr (f d))
    else (case B of Inl e \<Rightarrow> Inl e | Inr d \<Rightarrow> Inr (f d)))"
  by simp

lemma share_range_before:
  assumes "valid_datetime now"
  shows "get_date_range_share period_name now =
     range_before (if period_name = ''last_week'' then 7
                   else if period_name = ''last_4_weeks'' then 28
                   else if period_name = ''last_3_months'' then 90
                   else if period_name = ''last_6_months'' then 180 else 7) now"
  unfolding get_date_range_share_def timedelta_values case_if_push sub_range_before[OF assms]
  by (simp only: if_distrib[of "\<lambda>k. range_before k now"])

lemma hello_range_before:
  assumes "valid_datetime now"
  shows "get_date_range_hello period_name now =
     range_before (if period_name = ''last_week'' then 7
                   else if period_name = ''last_4_weeks'' then 28
                   else if period_name = ''last_3_months'' then 90
                   else if period_name = ''last_6_months'' then 180 else 7) now"
  unfolding get_date_range_hello_def timedelta_values case_if_push sub_range_before[OF assms]
  by (simp only: if_distrib[of "\<lambda>k. range_before k now"])

lemma sshare_range_before:
  assumes "valid_datetime now"
  shows "get_date_range_sshare period_name now =
     range_before (if period_name = ''last_week'' then 7
                   else if period_name = ''one_month'' then 30
                   else if period_name = ''three_months'' then 90 else 7) now"
  unfolding get_date_range_sshare_def timedelta_values case_if_push sub_range_before[OF assms]
  by (simp only: if_distrib[of "\<lambda>k. range_before k now"])

section \<open>The resolver at the dates of the specification\<close>

text \<open>Each line evaluates a variant at a fixed clock reading.\<close>

lemma valid_2024_03_15: "valid_datetime (at_date 2024 3 15)" by code_simp
lemma valid_2024_02_29: "valid_datetime (at_date 2024 2 29)" by code_simp
lemma toordinal_2024_03_15: "toordinal (at_date 2024 3 15) = 738960" by code_simp

lemma share_week_2024_03_15:
  "get_date_range_share ''last_week'' (at_date 2024 3 15) = Inr (''2024-03-08'', ''2024-03-15'')"
  by code_simp
lemma share_4w_2024_03_15:
  "get_date_range_share ''last_4_weeks'' (at_date 2024 3 15) = Inr (''2024-02-16'', ''2024-03-15'')"
  by code_simp
lemma share_3m_2024_03_15:
  "get_date_range_share ''last_3_months'' (at_date 2024 3 15) = Inr (''2023-12-16'', ''2024-03-15'')"
  by code_simp
lemma share_6m_2024_03_15:
  "get_date_range_share ''last_6_months'' (at_date 2024 3 15) = Inr (''2023-09-17'', ''2024-03-15'')"
  by code_simp
lemma hello_3m_2024_03_15:
  "get_date_range_hello ''last_3_months'' (at_date 2024 3 15) = Inr (''2023-12-16'', ''2024-03-15'')"
  by code_simp
lemma hello_6m_2024_03_15:
  "get_date_range_hello ''last_6_months'' (at_date 2024 3 15) = Inr (''2023-09-17'', ''2024-03-15'')"
  by code_simp
lemma share_3m_2024_02_29:
  "get_date_range_share ''last_3_months'' (at_date 2024 2 29) = Inr (''2023-12-01'', ''2024-02-29'')"
  by code_simp
lemma hello_3m_2024_02_29:
  "get_date_range_hello ''last_3_months'' (at_date 2024 2 29) = Inr (''2023-12-01'', ''2024-02-29'')"
  by code_simp
lemma sshare_week_2024_03_15:
  "get_date_range_sshare ''last_week'' (at_date 2024 3 15) = Inr (''2024-03-08'', ''2024-03-15'')"
  by code_simp
lemma sshare_month_2024_03_15:
  "get_date_range_sshare ''one_month'' (at_date 2024 3 15) = Inr (''2024-02-14'', ''2024-03-15'')"
  by code_simp
lemma sshare_4w_2024_03_15:
  "get_date_range_sshare ''last_4_weeks'' (at_date 2024 3 15) = Inr (''2024-03-08'', ''2024-03-15'')"
  by code_simp
lemma sshare_6m_2024_03_15:
  "get_date_range_sshare ''last_6_months'' (at_date 2024 3 15) = Inr (''2024-03-08'', ''2024-03-15'')"
  by code_simp
lemma shharee_week_2024_03_15:
  "get_date_range_shharee ''last_week'' (at_date 2024 3 15) = Inr (''2024-03-08'', ''2024-m-15'')"
  by code_simp
lemma days_before_90_2024_02_29:
  "calendar_days_before 90 (at_date 2024 2 29) = Some (at_date 2023 12 1)"
  by code_simp
lemma iso_format_2024_03_15: "iso_format (at_date 2024 3 15) = ''2024-03-15''"
  by code_simp
lemma not_iso_shape_m: "\<not> iso_date_shape ''2024-m-15''"
  by code_simp

section \<open>The date-range claims\<close>

lemma range_before_cases:
  assumes "valid_datetime now"
  shows "(int k < toordinal now \<longrightarrow>
            (\<exists>start. range_before k now = Inr (iso_format start, iso_format now)
               \<and> calendar_days_before k now = Some start))
       \<and> (toordinal now \<le> int k \<longrightarrow> range_before k now = Inl OverflowError)"
  using calendar_days_before_Some[OF assms, of k] calendar_days_before_None[OF assms, of k]
  by (auto simp: range_before_def)

lemma range_before_Inr:
  assumes "valid_datetime now" "range_before k now = Inr (s, e)"
  shows "\<exists>start. valid_datetime start \<and> s = iso_format start \<and> e = iso_format now
           \<and> date_le start now \<and> toordinal now - toordinal start = int k"
proof -
  from assms(2) obtain start where
    c: "calendar_days_before k now = Some start" and se: "s = iso_format start" "e = iso_format now"
    by (auto simp: range_before_def split: option.splits)
  from calendar_days_before_props[OF assms(1) c] se show ?thesis by blast
qed

subsection \<open>The shape of the formatted dates\<close>

lemma digit_nth: "n < 10 \<Longrightarrow> is_digit (''0123456789'' ! n)"
  unfolding is_digit_def by (rule nth_mem) simp

lemma str_nat_digits: "list_all is_digit (str_nat n)"
proof (induction n rule: str_nat.induct)
  case (1 n)
  show ?case
  proof (cases "n < 10")
    case True
    then show ?thesis by (subst str_nat.simps) (simp add: digit_nth)
  next
    case False
    have "is_digit (''0123456789'' ! (n mod 10))" by (rule digit_nth) simp
    then show ?thesis using False "1.IH" by (subst str_nat.simps) simp
  qed
qed

lemma str_nat_length_1: "n < 10 \<Longrightarrow> length (str_nat n) = 1"
  by (subst str_nat.simps) simp

lemma str_nat_length_2: "n < 100 \<Longrightarrow> length (str_nat n) \<le> 2"
  by (subst str_nat.simps) (simp add: str_nat_length_1)

lemma str_nat_length_3: "n < 1000 \<Longrightarrow> length (str_nat n) \<le> 3"
proof -
  assume a: "n < 1000"
  then have "n div 10 < 100" by simp
  then have "length (str_nat (n div 10)) \<le> 2" by (rule str_nat_length_2)
  then show ?thesis using a by (subst str_nat.simps) (simp add: str_nat_length_1)
qed

lemma str_nat_length_4: "n < 10000 \<Longrightarrow> length (str_nat n) \<le> 4"
proof -
  assume a: "n < 10000"
  then have "n div 10 < 1000" by simp
  then have "length (str_nat (n div 10)) \<le> 3" by (rule str_nat_length_3)
  then show ?thesis using a by (subst str_nat.simps) (simp add: str_nat_length_1)
qed

lemma is_digit_zero: "is_digit CHR ''0''"
  by (simp add: is_digit_def)

lemma zfill_shape:
  assumes "length s \<le> w" "list_all is_digit s"
  shows "length (zfill w s) = w" "list_all is_digit (zfill w s)"
  using assms is_digit_zero by (auto simp: zfill_def list_all_iff)

lemma iso_format_parts:
  "iso_format dt = zfill 4 (str_nat (nat (year dt))) @ ''-'' @ zfill 2 (str_nat (nat (month dt)))
      @ ''-'' @ zfill 2 (str_nat (nat (day dt)))"
  by (simp add: iso_format_def)

lemma shape_of_parts:
  assumes "length a = 4" "list_all is_digit a" "length b = 2" "list_all is_digit b"
    "length c = 2" "list_all is_digit c"
  shows "iso_date_shape (a @ ''-'' @ b @ ''-'' @ c)"
  using assms by (simp add: iso_date_shape_def nth_append)

text \<open>
  From year 1000 on the year has four digits of its own and the padding of \<open>%Y\<close>
  adds nothing; the lemmas on shapes are stated for such years.  A start at most
  365 days before a reading lies in the reading's year or the year before, so a
  reading from year 1001 on has its start in year 1000 or later.
\<close>

lemma str_nat_length_ge_1: "1 \<le> length (str_nat n)"
  by (subst str_nat.simps) simp

lemma str_nat_length_ge_2: "10 \<le> n \<Longrightarrow> 2 \<le> length (str_nat n)"
  using str_nat_length_ge_1[of "n div 10"] by (subst str_nat.simps) simp

lemma str_nat_length_ge_3: "100 \<le> n \<Longrightarrow> 3 \<le> length (str_nat n)"
proof -
  assume a: "100 \<le> n"
  then have "10 \<le> n div 10" by simp
  then have "2 \<le> length (str_nat (n div 10))" by (rule str_nat_length_ge_2)
  then show ?thesis using a by (subst str_nat.simps) simp
qed

lemma str_nat_length_ge_4: "1000 \<le> n \<Longrightarrow> 4 \<le> length (str_nat n)"
proof -
  assume a: "1000 \<le> n"
  then have "100 \<le> n div 10" by simp
  then have "3 \<le> length (str_nat (n div 10))" by (rule str_nat_length_ge_3)
  then show ?thesis using a by (subst str_nat.simps) simp
qed

lemma year_padding_idle:
  assumes "1000 \<le> y"
  shows "zfill 4 (str_nat (nat y)) = str_nat (nat y)"
proof -
  have "1000 \<le> nat y" using assms by simp
  then have "4 \<le> length (str_nat (nat y))" by (rule str_nat_length_ge_4)
  then show ?thesis by (simp add: zfill_def)
qed

lemma iso_format_shape:
  assumes "valid_datetime dt" "1000 \<le> year dt"
  shows "iso_date_shape (iso_format dt)"
    and "iso_format dt = str_nat (nat (year dt)) @ ''-'' @ zfill 2 (str_nat (nat (month dt)))
           @ ''-'' @ zfill 2 (str_nat (nat (day dt)))"
proof -
  have v: "1 \<le> year dt" "year dt \<le> 9999" "1 \<le> month dt" "month dt \<le> 12"
      "1 \<le> day dt" "day dt \<le> days_in_month (year dt) (month dt)"
    using assms(1) by (simp_all add: valid_datetime_def MINYEAR_def MAXYEAR_def)
  have "days_in_month (year dt) (month dt) \<le> 31" using v by (intro dim_bounds) simp_all
  then have d: "nat (day dt) < 100" using v by simp
  have m: "nat (month dt) < 100" using v by simp
  have y: "nat (year dt) < 10000" using v by simp
  show "iso_date_shape (iso_format dt)"
    unfolding iso_format_parts
    by (intro shape_of_parts zfill_shape str_nat_digits str_nat_length_4[OF y]
          str_nat_length_2[OF m] str_nat_length_2[OF d])
  show "iso_format dt = str_nat (nat (year dt)) @ ''-'' @ zfill 2 (str_nat (nat (month dt)))
           @ ''-'' @ zfill 2 (str_nat (nat (day dt)))"
    unfolding iso_format_parts year_padding_idle[OF assms(2)] by (rule refl)
qed

lemma shharee_end_parts:
  "strftime dt ''%Y-m-%d'' = zfill 4 (str_nat (nat (year dt))) @ ''-m-'' @ zfill 2 (str_nat (nat (day dt)))"
  by simp

lemma shharee_end_length:
  assumes "valid_datetime dt" "1000 \<le> year dt"
  shows "length (strftime dt ''%Y-m-%d'') = 9"
proof -
  have v: "1 \<le> year dt" "year dt \<le> 9999" "1 \<le> month dt" "month dt \<le> 12"
      "1 \<le> day dt" "day dt \<le> days_in_month (year dt) (month dt)"
    using assms(1) by (simp_all add: valid_datetime_def MINYEAR_def MAXYEAR_def)
  have "days_in_month (year dt) (month dt) \<le> 31" using v by (intro dim_bounds) simp_all
  then have d: "nat (day dt) < 100" using v by simp
  have y: "nat (year dt) < 10000" using v by simp
  have "4 \<le> length (str_nat (nat (year dt)))"
    using assms(2) by (intro str_nat_length_ge_4) simp
  then have "length (str_nat (nat (year dt))) = 4" using str_nat_length_4[OF y] by simp
  moreover have "length (zfill 2 (str_nat (nat (day dt)))) = 2"
    by (intro zfill_shape str_nat_digits str_nat_length_2[OF d])
  ultimately show ?thesis
    unfolding shharee_end_parts year_padding_idle[OF assms(2)] by simp
qed

lemma start_year_lower:
  assumes "valid_datetime now" "valid_datetime start"
    and "toordinal now - toordinal start = int k" "k \<le> 365"
  shows "year now - 1 \<le> year start"
proof (rule ccontr)
  assume "\<not> year now - 1 \<le> year start"
  then have lt: "year start + 1 \<le> year now - 1" by simp
  note vs = valid_datetime_ymd(1)[OF assms(2)]
  note vn = valid_datetime_ymd(1)[OF assms(1)]
  have "toordinal start \<le> days_before_year (year start) + year_len (year start)"
    using doy_bounds(2)[OF vs] by (simp add: toordinal_def ymd2ord_def)
  also have "\<dots> = days_before_year (year start + 1)" by (simp add: dby_step)
  also have "\<dots> \<le> days_before_year (year now - 1)" using lt by (rule dby_mono)
  finally have s: "toordinal start \<le> days_before_year (year now - 1)" .
  have "days_before_year (year now - 1 + 1)
          = days_before_year (year now - 1) + year_len (year now - 1)" by (rule dby_step)
  moreover have "365 \<le> year_len (year now - 1)" by (simp add: year_len_def)
  ultimately have "days_before_year (year now - 1) + 365 \<le> days_before_year (year now)" by simp
  moreover have "days_before_year (year now) + 1 \<le> toordinal now"
    using doy_bounds(1)[OF vn] by (simp add: toordinal_def ymd2ord_def)
  ultimately have "days_before_year (year now - 1) + 366 \<le> toordinal now" by linarith
  then have "366 \<le> toordinal now - toordinal start" using s by linarith
  then show False using assms(3,4) by simp
qed

lemma range_before_shape:
  assumes "valid_datetime now" "1001 \<le> year now" "k \<le> 365"
    and "range_before k now = Inr (s, e)"
  shows "iso_date_shape s \<and> iso_date_shape e \<and> e = iso_format now"
proof -
  from range_before_Inr[OF assms(1,4)] obtain start where
    st: "valid_datetime start" "s = iso_format start" "e = iso_format now"
        "toordinal now - toordinal start = int k" by blast
  have "year now - 1 \<le> year start" by (rule start_year_lower[OF assms(1) st(1) st(4) assms(3)])
  then have ys: "1000 \<le> year start" using assms(2) by simp
  have yn: "1000 \<le> year now" using assms(2) by simp
  have "iso_date_shape (iso_format start)" by (rule iso_format_shape(1)[OF st(1) ys])
  moreover have "iso_date_shape (iso_format now)" by (rule iso_format_shape(1)[OF assms(1) yn])
  ultimately show ?thesis unfolding st(2,3) by simp
qed

lemma three_variants_iso_shape:
  assumes "valid_datetime now" "1001 \<le> year now"
    and "get_date_range_share period_name now = Inr (s, e)
         \<or> get_date_range_hello period_name now = Inr (s, e)
         \<or> get_date_range_sshare period_name now = Inr (s, e)"
  shows "iso_date_shape s \<and> iso_date_shape e \<and> e = iso_format now"
proof -
  let ?P = "iso_date_shape s \<and> iso_date_shape e \<and> e = iso_format now"
  note r = range_before_shape[OF assms(1,2)]
  have r7: "range_before 7 now = Inr (s, e) \<Longrightarrow> ?P" by (rule r[of 7]) simp_all
  have r28: "range_before 28 now = Inr (s, e) \<Longrightarrow> ?P" by (rule r[of 28]) simp_all
  have r30: "range_before 30 now = Inr (s, e) \<Longrightarrow> ?P" by (rule r[of 30]) simp_all
  have r90: "range_before 90 now = Inr (s, e) \<Longrightarrow> ?P" by (rule r[of 90]) simp_all
  have r180: "range_before 180 now = Inr (s, e) \<Longrightarrow> ?P" by (rule r[of 180]) simp_all
  have "range_before 7 now = Inr (s, e) \<or> range_before 28 now = Inr (s, e)
        \<or> range_before 30 now = Inr (s, e) \<or> range_before 90 now = Inr (s, e)
        \<or> range_before 180 now = Inr (s, e)"
    using assms(3)
    unfolding share_range_before[OF assms(1)] hello_range_before[OF assms(1)]
      sshare_range_before[OF assms(1)]
    by (auto split: if_splits)
  then show ?thesis using r7 r28 r30 r90 r180 by blast
qed

lemma shharee_end_never_iso:
  assumes "valid_datetime now" "1000 \<le> year now"
    and "get_date_range_shharee period_name now = Inr (s, e)"
  shows "\<not> iso_date_shape e" "e \<noteq> iso_format now"
proof -
  have e: "e = strftime now ''%Y-m-%d''"
    using assms(3) unfolding get_date_range_shharee_def
    by (auto simp del: strftime.simps split: sum.splits)
  have l: "length e = 9" unfolding e by (rule shharee_end_length[OF assms(1,2)])
  then show "\<not> iso_date_shape e" by (simp add: iso_date_shape_def)
  have "iso_date_shape (iso_format now)" by (rule iso_format_shape(1)[OF assms(1,2)])
  then have "length (iso_format now) = 10" by (simp add: iso_date_shape_def)
  then show "e \<noteq> iso_format now" using l by auto
qed


subsection \<open>The claims\<close>

text \<open>
  Claim C1.  For every clock reading and every tag of the offset table
  (\<open>last_week\<close> 7, \<open>last_4_weeks\<close> 28, \<open>last_3_months\<close> 90, \<open>last_6_months\<close>
  180 days) the resolver of \<open>share.py\<close> and of \<open>hello.py\<close> returns the range that
  lies that many whole calendar days before the reading: the pair of the formatted
  start, the day reached by stepping back one calendar day at a time, and the
  formatted reading (where no such day exists in the calendar the subtraction
  overflows).  In particular \<open>last_6_months\<close> at 2024-03-15 gives
  \<open>("2023-09-17", "2024-03-15")\<close>.
\<close>

theorem resolver_offsets:
  assumes "valid_datetime now" and "(tag, k) \<in> set spec_offsets"
  shows "get_date_range_share tag now = range_before k now
       \<and> get_date_range_hello tag now = range_before k now
       \<and> (int k < toordinal now \<longrightarrow>
            (\<exists>start. calendar_days_before k now = Some start
               \<and> toordinal now - toordinal start = int k
               \<and> get_date_range_share tag now = Inr (iso_format start, iso_format now)
               \<and> get_date_range_hello tag now = Inr (iso_format start, iso_format now)))
       \<and> get_date_range_share ''last_6_months'' (at_date 2024 3 15) = Inr (''2023-09-17'', ''2024-03-15'')
       \<and> get_date_range_hello ''last_6_months'' (at_date 2024 3 15) = Inr (''2023-09-17'', ''2024-03-15'')"
proof -
  have s: "get_date_range_share tag now = range_before k now"
    using assms(2) unfolding share_range_before[OF assms(1)] by (auto simp: spec_offsets_def)
  have h: "get_date_range_hello tag now = range_before k now"
    using assms(2) unfolding hello_range_before[OF assms(1)] by (auto simp: spec_offsets_def)
  have "int k < toordinal now \<longrightarrow>
          (\<exists>start. calendar_days_before k now = Some start
             \<and> toordinal now - toordinal start = int k
             \<and> range_before k now = Inr (iso_format start, iso_format now))"
    using range_before_cases[OF assms(1), of k] calendar_days_before_props(2)[OF assms(1)]
    by blast
  then show ?thesis
    unfolding s h using share_6m_2024_03_15 hello_6m_2024_03_15 by simp
qed

text \<open>The 90-day tag at 2024-03-15.\<close>

theorem resolver_offsets_witness:
  "valid_datetime (at_date 2024 3 15) \<and> (''last_3_months'', 90) \<in> set spec_offsets
   \<and> get_date_range_share ''last_3_months'' (at_date 2024 3 15) = range_before 90 (at_date 2024 3 15)
   \<and> get_date_range_share ''last_3_months'' (at_date 2024 3 15) = Inr (''2023-12-16'', ''2024-03-15'')"
proof -
  have v: "valid_datetime (at_date 2024 3 15)" by (rule valid_2024_03_15)
  have m: "(''last_3_months'', 90) \<in> set spec_offsets" by (simp add: spec_offsets_def)
  show ?thesis using v m resolver_offsets[OF v m] share_3m_2024_03_15 by simp
qed

text \<open>
  Claim C2.  A period name outside the variant's enumeration is never an error of
  its own: for every clock reading the resolver gives exactly the result it gives
  for \<open>last_week\<close>, and for every reading with seven days before it in the
  calendar that result is the pair of the formatted day seven calendar days
  earlier and the formatted reading.
\<close>

theorem unrecognized_period_default:
  assumes "valid_datetime now"
    and "period_name \<notin> {''last_week'', ''last_4_weeks'', ''last_3_months'', ''last_6_months''}"
    and "other_name \<notin> {''last_week'', ''one_month'', ''three_months''}"
  shows "get_date_range_share period_name now = get_date_range_share ''last_week'' now
       \<and> get_date_range_sshare other_name now = get_date_range_sshare ''last_week'' now
       \<and> get_date_range_share period_name now = range_before 7 now
       \<and> get_date_range_sshare other_name now = range_before 7 now
       \<and> (int 7 < toordinal now \<longrightarrow>
            (\<exists>start. calendar_days_before 7 now = Some start
               \<and> toordinal now - toordinal start = 7
               \<and> get_date_range_share period_name now = Inr (iso_format start, iso_format now)
               \<and> get_date_range_sshare other_name now = Inr (iso_format start, iso_format now)))"
proof -
  have s: "get_date_range_share period_name now = range_before 7 now"
    using assms(2) unfolding share_range_before[OF assms(1)] by simp
  have t: "get_date_range_sshare other_name now = range_before 7 now"
    using assms(3) unfolding sshare_range_before[OF assms(1)] by simp
  have sw: "get_date_range_share ''last_week'' now = range_before 7 now"
    unfolding share_range_before[OF assms(1)] by simp
  have tw: "get_date_range_sshare ''last_week'' now = range_before 7 now"
    unfolding sshare_range_before[OF assms(1)] by simp
  have "int 7 < toordinal now \<longrightarrow>
          (\<exists>start. calendar_days_before 7 now = Some start
             \<and> toordinal now - toordinal start = int 7
             \<and> range_before 7 now = Inr (iso_format start, iso_format now))"
    using range_before_cases[OF assms(1), of 7] calendar_days_before_props(2)[OF assms(1)]
    by blast
  then show ?thesis unfolding s t sw tw by simp
qed

text \<open>\<open>bogus_value\<close> at 2024-03-15, in both variants.\<close>

theorem unrecognized_period_default_witness:
  "valid_datetime (at_date 2024 3 15)
   \<and> ''bogus_value'' \<notin> {''last_week'', ''last_4_weeks'', ''last_3_months'', ''last_6_months''}
   \<and> ''bogus_value'' \<notin> {''last_week'', ''one_month'', ''three_months''}
   \<and> int 7 < toordinal (at_date 2024 3 15)
   \<and> get_date_range_share ''bogus_value'' (at_date 2024 3 15)
       = get_date_range_share ''last_week'' (at_date 2024 3 15)
   \<and> get_date_range_share ''bogus_value'' (at_date 2024 3 15) = Inr (''2024-03-08'', ''2024-03-15'')
   \<and> get_date_range_sshare ''bogus_value'' (at_date 2024 3 15) = Inr (''2024-03-08'', ''2024-03-15'')"
proof -
  have v: "valid_datetime (at_date 2024 3 15)" by (rule valid_2024_03_15)
  have a: "''bogus_value'' \<notin> {''last_week'', ''last_4_weeks'', ''last_3_months'', ''last_6_months''}"
    by simp
  have b: "''bogus_value'' \<notin> {''last_week'', ''one_month'', ''three_months''}" by simp
  have g: "int 7 < toordinal (at_date 2024 3 15)" by (simp add: toordinal_2024_03_15)
  note t = unrecognized_period_default[OF v a b]
  have e1: "get_date_range_share ''bogus_value'' (at_date 2024 3 15)
              = get_date_range_share ''last_week'' (at_date 2024 3 15)"
    by (rule t[THEN conjunct1])
  have e2: "get_date_range_sshare ''bogus_value'' (at_date 2024 3 15)
              = get_date_range_sshare ''last_week'' (at_date 2024 3 15)"
    by (rule t[THEN conjunct2, THEN conjunct1])
  show ?thesis
    using v a b g e1 e2 share_week_2024_03_15 sshare_week_2024_03_15 by simp
qed

text \<open>
  Claim C4.  For every valid period name of \<open>share.py\<close> and of \<open>sshare.py\<close> and
  every clock reading, a range the resolver produces has as end the formatted
  reading and as start the formatted date of a valid calendar day that is not after
  the reading and lies before it by the number of days the table gives for the
  name alone; a range is produced whenever the reading has that many days before it.
\<close>

theorem date_range_invariant:
  assumes "valid_datetime now"
    and "(tag, k) \<in> set spec_offsets" and "(tag', k') \<in> set sshare_offsets"
  shows "(\<forall>s e. get_date_range_share tag now = Inr (s, e) \<longrightarrow>
            (\<exists>start. valid_datetime start \<and> s = iso_format start \<and> e = iso_format now
               \<and> date_le start now \<and> toordinal now - toordinal start = int k))
       \<and> (\<forall>s e. get_date_range_sshare tag' now = Inr (s, e) \<longrightarrow>
            (\<exists>start. valid_datetime start \<and> s = iso_format start \<and> e = iso_format now
               \<and> date_le start now \<and> toordinal now - toordinal start = int k'))
       \<and> (int k < toordinal now \<longrightarrow> (\<exists>s e. get_date_range_share tag now = Inr (s, e)))
       \<and> (int k' < toordinal now \<longrightarrow> (\<exists>s e. get_date_range_sshare tag' now = Inr (s, e)))"
proof -
  have s: "get_date_range_share tag now = range_before k now"
    using assms(2) unfolding share_range_before[OF assms(1)] by (auto simp: spec_offsets_def)
  have t: "get_date_range_sshare tag' now = range_before k' now"
    using assms(3) unfolding sshare_range_before[OF assms(1)] by (auto simp: sshare_offsets_def)
  show ?thesis
    unfolding s t
    using range_before_Inr[OF assms(1), of k] range_before_Inr[OF assms(1), of k']
      range_before_cases[OF assms(1), of k] range_before_cases[OF assms(1), of k']
    by blast
qed

text \<open>\<open>last_6_months\<close> in \<open>share.py\<close> and \<open>one_month\<close> in \<open>sshare.py\<close> at 2024-03-15.\<close>

theorem date_range_invariant_witness:
  "valid_datetime (at_date 2024 3 15) \<and> (''last_6_months'', 180) \<in> set spec_offsets
   \<and> (''one_month'', 30) \<in> set sshare_offsets
   \<and> (\<exists>start. valid_datetime start \<and> ''2023-09-17'' = iso_format start
         \<and> ''2024-03-15'' = iso_format (at_date 2024 3 15)
         \<and> date_le start (at_date 2024 3 15)
         \<and> toordinal (at_date 2024 3 15) - toordinal start = 180)
   \<and> (\<exists>start. valid_datetime start \<and> ''2024-02-14'' = iso_format start
         \<and> date_le start (at_date 2024 3 15)
         \<and> toordinal (at_date 2024 3 15) - toordinal start = 30)"
proof -
  have v: "valid_datetime (at_date 2024 3 15)" by (rule valid_2024_03_15)
  have a: "(''last_6_months'', 180) \<in> set spec_offsets" by (simp add: spec_offsets_def)
  have b: "(''one_month'', 30) \<in> set sshare_offsets" by (simp add: sshare_offsets_def)
  show ?thesis
    using v a b date_range_invariant[OF v a b] share_6m_2024_03_15 sshare_month_2024_03_15
    by auto
qed

text \<open>
  Claim C5.  The start of \<open>last_3_months\<close> is the day ninety calendar days before
  the reading, for every reading; at 2024-02-29 it is 2023-12-01, the day ninety
  single-day steps back across the leap day, and at 2024-03-15 the range is
  \<open>("2023-12-16", "2024-03-15")\<close>.
\<close>

theorem leap_year_subtraction:
  assumes "valid_datetime now"
  shows "get_date_range_share ''last_3_months'' now = range_before 90 now
       \<and> get_date_range_hello ''last_3_months'' now = range_before 90 now
       \<and> get_date_range_share ''last_3_months'' (at_date 2024 2 29) = Inr (''2023-12-01'', ''2024-02-29'')
       \<and> get_date_range_hello ''last_3_months'' (at_date 2024 2 29) = Inr (''2023-12-01'', ''2024-02-29'')
       \<and> calendar_days_before 90 (at_date 2024 2 29) = Some (at_date 2023 12 1)
       \<and> get_date_range_share ''last_3_months'' (at_date 2024 3 15) = Inr (''2023-12-16'', ''2024-03-15'')
       \<and> get_date_range_hello ''last_3_months'' (at_date 2024 3 15) = Inr (''2023-12-16'', ''2024-03-15'')"
  unfolding share_range_before[OF assms] hello_range_before[OF assms]
  using share_3m_2024_02_29 hello_3m_2024_02_29 days_before_90_2024_02_29
    share_3m_2024_03_15 hello_3m_2024_03_15
  by simp

text \<open>The leap day itself.\<close>

theorem leap_year_subtraction_witness:
  "valid_datetime (at_date 2024 2 29)
   \<and> range_before 90 (at_date 2024 2 29) = Inr (''2023-12-01'', ''2024-02-29'')"
proof -
  note t = leap_year_subtraction[OF valid_2024_02_29]
  have "range_before 90 (at_date 2024 2 29)
          = get_date_range_share ''last_3_months'' (at_date 2024 2 29)"
    by (rule t[THEN conjunct1, symmetric])
  also have "\<dots> = Inr (''2023-12-01'', ''2024-02-29'')"
    by (rule t[THEN conjunct2, THEN conjunct2, THEN conjunct1])
  finally show ?thesis using valid_2024_02_29 by simp
qed

text \<open>
  Claim C6.  \<open>last_4_weeks\<close> in \<open>share.py\<close> is 28 days (four weeks of seven);
  \<open>one_month\<close> in \<open>sshare.py\<close> is 30 days and \<open>three_months\<close> 90; every other
  name in \<open>sshare.py\<close>, \<open>last_4_weeks\<close> and \<open>last_6_months\<close> among them, is the
  seven-day default.
\<close>

theorem month_period_by_variant:
  assumes "valid_datetime now"
    and "other_name \<notin> {''last_week'', ''one_month'', ''three_months''}"
  shows "get_date_range_share ''last_4_weeks'' now = range_before 28 now
       \<and> days (timedelta_kw 0 4) = 4 * 7
       \<and> get_date_range_sshare ''one_month'' now = range_before 30 now
       \<and> get_date_range_sshare ''three_months'' now = range_before 90 now
       \<and> get_date_range_sshare other_name now = range_before 7 now
       \<and> get_date_range_sshare ''last_4_weeks'' now = range_before 7 now
       \<and> get_date_range_sshare ''last_6_months'' now = range_before 7 now
       \<and> get_date_range_sshare ''last_week'' now = range_before 7 now"
  using assms(2)
  unfolding share_range_before[OF assms(1)] sshare_range_before[OF assms(1)]
  by (simp add: timedelta_kw_def)

text \<open>The two month-length periods differ at 2024-03-15.\<close>

theorem month_period_by_variant_witness:
  "valid_datetime (at_date 2024 3 15)
   \<and> ''last_3_months'' \<notin> {''last_week'', ''one_month'', ''three_months''}
   \<and> range_before 28 (at_date 2024 3 15) = Inr (''2024-02-16'', ''2024-03-15'')
   \<and> range_before 30 (at_date 2024 3 15) = Inr (''2024-02-14'', ''2024-03-15'')
   \<and> get_date_range_sshare ''last_3_months'' (at_date 2024 3 15) = Inr (''2024-03-08'', ''2024-03-15'')
   \<and> get_date_range_sshare ''last_6_months'' (at_date 2024 3 15) = Inr (''2024-03-08'', ''2024-03-15'')"
proof -
  have v: "valid_datetime (at_date 2024 3 15)" by (rule valid_2024_03_15)
  have a: "''last_3_months'' \<notin> {''last_week'', ''one_month'', ''three_months''}" by simp
  show ?thesis
    using v a month_period_by_variant[OF v a] share_4w_2024_03_15 sshare_month_2024_03_15
      sshare_6m_2024_03_15
    by simp
qed

text \<open>
  Claim C3 fails in \<open>shharee.py\<close>: its second format string is \<open>"%Y-m-%d"\<close>, so
  the end of the range at 2024-03-15 is \<open>"2024-m-15"\<close>, which is neither the
  formatted reading nor of the shape \<open>YYYY-MM-DD\<close>.
\<close>

theorem shharee_end_date_malformed:
  "get_date_range_shharee ''last_week'' (at_date 2024 3 15) = Inr (''2024-03-08'', ''2024-m-15'')
   \<and> iso_format (at_date 2024 3 15) = ''2024-03-15''
   \<and> \<not> iso_date_shape ''2024-m-15''"
  using shharee_week_2024_03_15 iso_format_2024_03_15 not_iso_shape_m by simp

section \<open>The news fetch\<close>

text \<open>The one search call each variant makes once both checks have passed.\<close>

lemma hello_search_call:
  assumes "stock_list \<noteq> []" and "\<not> py_not api_key"
  shows "fst (fetch_news_for_stocks_hello get_everything api_key stock_list from_date to_date) =
     [\<lparr>rq_api_key = api_key,
       rq_q = ''('' @ join '' OR '' (take 15 stock_list) @ '') AND (stock OR market OR NSE OR BSE)'',
       rq_from_param = from_date, rq_to = to_date, rq_language = ''en'',
       rq_sort_by = ''publishedAt'', rq_page_size = 50\<rparr>]"
  using assms by (simp add: fetch_news_for_stocks_hello_def Let_def split: sum.splits)

lemma sshare_search_call:
  assumes "stock_list \<noteq> []" and "\<not> py_not api_key"
  shows "fst (fetch_news_for_stocks_sshare get_everything api_key stock_list from_date to_date) =
     [\<lparr>rq_api_key = api_key,
       rq_q = ''('' @ join '' OR '' (take 15 stock_list) @ '') AND (stock OR market OR NSE OR BSE)'',
       rq_from_param = from_date, rq_to = to_date, rq_language = ''en'',
       rq_sort_by = ''publishedAt'', rq_page_size = 50\<rparr>]"
  using assms by (simp add: fetch_news_for_stocks_sshare_def Let_def split: sum.splits)

lemma share_search_call:
  assumes "stock_list \<noteq> []" and "NEWS_API_KEY \<noteq> ''YOUR_API_KEY_HERE''"
  shows "fetch_news_for_stocks_share NEWS_API_KEY get_everything stock_list from_date to_date =
     [\<lparr>rq_api_key = Some NEWS_API_KEY,
       rq_q = ''('' @ join '' OR '' (take 15 stock_list) @ '') AND (stock OR market OR NSE OR BSE)'',
       rq_from_param = from_date, rq_to = to_date, rq_language = ''en'',
       rq_sort_by = ''publishedAt'', rq_page_size = 20\<rparr>]"
  using assms by (simp add: fetch_news_for_stocks_share_def Let_def split: sum.splits)

text \<open>
  Claim C7.  For a non-empty stock list (and a key that passes the variant's
  credential check) the query of the search call is the parenthesised
  \<open>" OR "\<close>-join of the first fifteen symbols of the list, in list order, followed
  by \<open>AND (stock OR market OR NSE OR BSE)\<close>; at most fifteen symbols are joined,
  they are a prefix of the list, and a list of fifteen or fewer is joined whole.
\<close>

theorem query_first_fifteen:
  assumes "stock_list \<noteq> []" and "\<not> py_not api_key" and "NEWS_API_KEY \<noteq> ''YOUR_API_KEY_HERE''"
  shows "map rq_q (fst (fetch_news_for_stocks_hello get_everything api_key stock_list from_date to_date))
           = [''('' @ join '' OR '' (take 15 stock_list) @ '') AND (stock OR market OR NSE OR BSE)'']
       \<and> map rq_q (fst (fetch_news_for_stocks_sshare get_everything api_key stock_list from_date to_date))
           = [''('' @ join '' OR '' (take 15 stock_list) @ '') AND (stock OR market OR NSE OR BSE)'']
       \<and> map rq_q (fetch_news_for_stocks_share NEWS_API_KEY get_everything stock_list from_date to_date)
           = [''('' @ join '' OR '' (take 15 stock_list) @ '') AND (stock OR market OR NSE OR BSE)'']
       \<and> length (take 15 stock_list) \<le> 15
       \<and> take 15 stock_list @ drop 15 stock_list = stock_list
       \<and> (length stock_list \<le> 15 \<longrightarrow> take 15 stock_list = stock_list)"
  using assms
  by (simp add: hello_search_call sshare_search_call share_search_call)

text \<open>A list of seventeen symbols keeps its first fifteen; a list of three keeps all.\<close>

theorem query_first_fifteen_witness:
  "map rq_q (fst (fetch_news_for_stocks_hello (\<lambda>r. Inl ''rateLimited'') (Some ''k'')
       [''S01'', ''S02'', ''S03'', ''S04'', ''S05'', ''S06'', ''S07'', ''S08'', ''S09'', ''S10'',
        ''S11'', ''S12'', ''S13'', ''S14'', ''S15'', ''S16'', ''S17''] ''2024-03-08'' ''2024-03-15''))
   = [''(S01 OR S02 OR S03 OR S04 OR S05 OR S06 OR S07 OR S08 OR S09 OR S10 OR S11 OR S12 OR S13 OR S14 OR S15) AND (stock OR market OR NSE OR BSE)'']
   \<and> map rq_q (fetch_news_for_stocks_share ''k'' (\<lambda>r. Inl ''rateLimited'')
       [''RELIANCE'', ''TCS'', ''INFY''] ''2024-03-08'' ''2024-03-15'')
   = [''(RELIANCE OR TCS OR INFY) AND (stock OR market OR NSE OR BSE)'']"
  using query_first_fifteen[of "[''S01'', ''S02'', ''S03'', ''S04'', ''S05'', ''S06'', ''S07'', ''S08'', ''S09'', ''S10'',
        ''S11'', ''S12'', ''S13'', ''S14'', ''S15'', ''S16'', ''S17'']" "Some ''k''" "''k''"
        "\<lambda>r. Inl ''rateLimited''" "''2024-03-08''" "''2024-03-15''"]
     query_first_fifteen[of "[''RELIANCE'', ''TCS'', ''INFY'']" "Some ''k''" "''k''"
        "\<lambda>r. Inl ''rateLimited''" "''2024-03-08''" "''2024-03-15''"]
  by (simp add: py_not_def)

text \<open>
  Claim C8, as stated, fails in \<open>share.py\<close>: its check compares the module-level key
  with the placeholder only, so an empty key passes it and the search is called.
\<close>

theorem empty_key_reaches_search_in_share:
  "py_not (Some '''')
   \<and> fetch_news_for_stocks_share '''' (\<lambda>r. Inl ''apiKeyMissing'') [''TCS''] ''2024-03-08'' ''2024-03-15''
       = [\<lparr>rq_api_key = Some '''', rq_q = ''(TCS) AND (stock OR market OR NSE OR BSE)'',
           rq_from_param = ''2024-03-08'', rq_to = ''2024-03-15'', rq_language = ''en'',
           rq_sort_by = ''publishedAt'', rq_page_size = 20\<rparr>]"
  by (simp add: py_not_def fetch_news_for_stocks_share_def)

text \<open>
  Claim C8, amended.  In \<open>hello.py\<close> and \<open>sshare.py\<close> a key that is \<open>None\<close> or empty
  (\<open>not api_key\<close>) makes the fetch return the empty list before any search call,
  for every stock list and date range; in \<open>share.py\<close> the fetch returns before any
  search call while the module-level key is the placeholder the file ships with.
\<close>

theorem missing_credential_blocks_search:
  assumes "py_not api_key"
  shows "fetch_news_for_stocks_hello get_everything api_key stock_list from_date to_date = ([], [])
       \<and> fetch_news_for_stocks_sshare get_everything api_key stock_list from_date to_date = ([], [])
       \<and> fetch_news_for_stocks_share NEWS_API_KEY_placeholder get_everything stock_list from_date to_date = []"
  using assms
  by (simp add: fetch_news_for_stocks_hello_def fetch_news_for_stocks_sshare_def
        fetch_news_for_stocks_share_def NEWS_API_KEY_placeholder_def)

text \<open>The empty key and the absent key, with a service that would have answered.\<close>

theorem missing_credential_blocks_search_witness:
  "py_not (Some '''') \<and> py_not None
   \<and> fetch_news_for_stocks_hello (\<lambda>r. Inr \<lparr>totalResults = 1, articles = []\<rparr>) (Some '''')
        [''TCS''] ''2024-03-08'' ''2024-03-15'' = ([], [])
   \<and> fetch_news_for_stocks_sshare (\<lambda>r. Inr \<lparr>totalResults = 1, articles = []\<rparr>) None
        [''TCS''] ''2024-03-08'' ''2024-03-15'' = ([], [])"
  using missing_credential_blocks_search[of "Some ''''" "\<lambda>r. Inr \<lparr>totalResults = 1, articles = []\<rparr>"
          "[''TCS'']" "''2024-03-08''" "''2024-03-15''"]
        missing_credential_blocks_search[of None "\<lambda>r. Inr \<lparr>totalResults = 1, articles = []\<rparr>"
          "[''TCS'']" "''2024-03-08''" "''2024-03-15''"]
  by (simp add: py_not_def)

text \<open>
  Claim C9.  With an empty stock list, whatever the key and the date range, no
  search call is made; \<open>hello.py\<close> and \<open>sshare.py\<close> return the empty list of
  articles (\<open>share.py\<close> returns \<open>None\<close> on every path).
\<close>

theorem empty_stock_list_no_search:
  "fetch_news_for_stocks_hello get_everything api_key [] from_date to_date = ([], [])
   \<and> fetch_news_for_stocks_sshare get_everything api_key [] from_date to_date = ([], [])
   \<and> fetch_news_for_stocks_share NEWS_API_KEY get_everything [] from_date to_date = []"
  by (simp add: fetch_news_for_stocks_hello_def fetch_news_for_stocks_sshare_def
        fetch_news_for_stocks_share_def)

section \<open>The sentiment label\<close>

text \<open>The float literal and one twentieth cut the finite floats at the same place.\<close>

lemma float_0_05_above: "0.05 \<le> float_0_05" "float_0_05 \<le> 1"
  by (simp_all add: float_0_05_def)

lemma int_scaled_ge:
  fixes N :: int
  assumes "0.05 \<le> (of_int N :: real) / 2 ^ 57"
  shows "float_0_05 \<le> of_int N / 2 ^ 57"
proof -
  have "(0.05::real) * 2 ^ 57 \<le> of_int N"
    using assms by (simp add: pos_le_divide_eq)
  then have "(7205759403792793::real) < of_int N" by simp
  then have "(7205759403792793::int) < N" by linarith
  then have "7205759403792794 \<le> N" by simp
  then have "(7205759403792794::real) \<le> of_int N" by linarith
  then show ?thesis by (simp add: float_0_05_def pos_le_divide_eq)
qed

lemma binary64_ge_threshold:
  assumes "binary64 c" "0.05 \<le> c"
  shows "float_0_05 \<le> c"
proof -
  have pos: "0 < c" using assms(2) by simp
  from assms(1) consider
    (big) m e where "\<bar>m\<bar> < (2::int) ^ 53" "(e::nat) \<le> 971" "c = of_int m * 2 ^ e"
  | (small) m e where "\<bar>m\<bar> < (2::int) ^ 53" "(e::nat) \<le> 1074" "c = of_int m / 2 ^ e"
    unfolding binary64_def by blast
  then show ?thesis
  proof cases
    case big
    have c: "c = of_int (m * 2 ^ e)" using big(3) by simp
    have "(0::real) < of_int (m * 2 ^ e)" using pos unfolding c .
    then have "0 < m * 2 ^ e" by (simp only: of_int_0_less_iff)
    then have "1 \<le> m * 2 ^ e" by linarith
    then have "(1::real) \<le> of_int (m * 2 ^ e)" by (simp only: of_int_1_le_iff)
    then have "1 \<le> c" unfolding c .
    then show ?thesis using float_0_05_above(2) by linarith
  next
    case small
    show ?thesis
    proof (cases "e \<le> 57")
      case True
      have "(2::real) ^ (e + (57 - e)) = 2 ^ e * 2 ^ (57 - e)" by (rule power_add)
      then have p: "(2::real) ^ 57 = 2 ^ e * 2 ^ (57 - e)" using True by simp
      have c: "c = of_int (m * 2 ^ (57 - e)) / 2 ^ 57"
        unfolding small(3) p by simp
      have "0.05 \<le> (of_int (m * 2 ^ (57 - e)) :: real) / 2 ^ 57"
        using assms(2) unfolding c .
      then have "float_0_05 \<le> of_int (m * 2 ^ (57 - e)) / 2 ^ 57" by (rule int_scaled_ge)
      then show ?thesis unfolding c .
    next
      case False
      then have "58 \<le> e" by simp
      then have e58: "(2::real) ^ 58 \<le> 2 ^ e" by (intro power_increasing) simp_all
      have "m < 2 ^ 53" using small(1) by linarith
      then have "(of_int m :: real) < of_int (2 ^ 53)" by (simp only: of_int_less_iff)
      then have m53: "(of_int m :: real) < 2 ^ 53" by simp
      have mpos: "(0::real) < of_int m"
        using pos unfolding small(3) by (simp add: zero_less_divide_iff)
      have "c \<le> of_int m / 2 ^ 58"
        unfolding small(3) using mpos e58 by (intro divide_left_mono) simp_all
      also have "\<dots> < 2 ^ 53 / 2 ^ 58"
        using m53 by (intro divide_strict_right_mono) simp_all
      also have "\<dots> = 1 / 32" by simp
      finally have "c < 1 / 32" .
      moreover have "1 / 20 \<le> c" using assms(2) by simp
      ultimately show ?thesis by linarith
    qed
  qed
qed

lemma binary64_minus: "binary64 c \<Longrightarrow> binary64 (- c)"
  unfolding binary64_def
proof (elim disjE exE conjE)
  fix m :: int and e :: nat
  assume "\<bar>m\<bar> < 2 ^ 53" "e \<le> 971" "c = of_int m * 2 ^ e"
  then have "\<bar>- m\<bar> < 2 ^ 53 \<and> e \<le> 971 \<and> - c = of_int (- m) * 2 ^ e" by simp
  then show "(\<exists>(m::int) (e::nat). \<bar>m\<bar> < 2 ^ 53 \<and> e \<le> 971 \<and> - c = of_int m * 2 ^ e) \<or>
     (\<exists>(m::int) (e::nat). \<bar>m\<bar> < 2 ^ 53 \<and> e \<le> 1074 \<and> - c = of_int m / 2 ^ e)" by blast
next
  fix m :: int and e :: nat
  assume "\<bar>m\<bar> < 2 ^ 53" "e \<le> 1074" "c = of_int m / 2 ^ e"
  then have "\<bar>- m\<bar> < 2 ^ 53 \<and> e \<le> 1074 \<and> - c = of_int (- m) / 2 ^ e" by simp
  then show "(\<exists>(m::int) (e::nat). \<bar>m\<bar> < 2 ^ 53 \<and> e \<le> 971 \<and> - c = of_int m * 2 ^ e) \<or>
     (\<exists>(m::int) (e::nat). \<bar>m\<bar> < 2 ^ 53 \<and> e \<le> 1074 \<and> - c = of_int m / 2 ^ e)" by blast
qed

lemma float_thresholds_exact:
  assumes "binary64 c"
  shows "float_0_05 \<le> c \<longleftrightarrow> 0.05 \<le> c" "c \<le> - float_0_05 \<longleftrightarrow> c \<le> - 0.05"
proof -
  show "float_0_05 \<le> c \<longleftrightarrow> 0.05 \<le> c"
  proof
    assume "float_0_05 \<le> c"
    with float_0_05_above(1) show "0.05 \<le> c" by (rule order_trans)
  next
    assume "0.05 \<le> c"
    with assms show "float_0_05 \<le> c" by (rule binary64_ge_threshold)
  qed
  show "c \<le> - float_0_05 \<longleftrightarrow> c \<le> - 0.05"
  proof
    assume "c \<le> - float_0_05"
    then have "float_0_05 \<le> - c" by (simp only: le_minus_iff)
    with float_0_05_above(1) have "0.05 \<le> - c" by (rule order_trans)
    then show "c \<le> - 0.05" by (simp only: le_minus_iff)
  next
    assume "c \<le> - 0.05"
    then have "0.05 \<le> - c" by (simp only: le_minus_iff)
    with binary64_minus[OF assms] have "float_0_05 \<le> - c" by (rule binary64_ge_threshold)
    then show "c \<le> - float_0_05" by (simp only: le_minus_iff)
  qed
qed

lemma binary64_float_0_05: "binary64 float_0_05"
proof -
  have "\<bar>3602879701896397::int\<bar> < 2 ^ 53 \<and> (56::nat) \<le> 1074
        \<and> float_0_05 = of_int 3602879701896397 / 2 ^ 56"
    by (simp add: float_0_05_def)
  then show ?thesis unfolding binary64_def by blast
qed


text \<open>
  Claim C10.  The label is one of Positive, Negative and Neutral; it is Positive
  exactly when the compound score is at least 0.05, Negative exactly when it is at
  most -0.05, and Neutral exactly when it lies strictly between; the two boundary
  scores are labelled Positive and Negative.
\<close>

theorem get_sentiment_partition:
  "fst (get_sentiment polarity_scores txt) \<in> {''Positive'', ''Negative'', ''Neutral''}
   \<and> (fst (get_sentiment polarity_scores txt) = ''Positive'' \<longleftrightarrow> compound (polarity_scores txt) \<ge> 0.05)
   \<and> (fst (get_sentiment polarity_scores txt) = ''Negative'' \<longleftrightarrow> compound (polarity_scores txt) \<le> - 0.05)
   \<and> (fst (get_sentiment polarity_scores txt) = ''Neutral'' \<longleftrightarrow>
        - 0.05 < compound (polarity_scores txt) \<and> compound (polarity_scores txt) < 0.05)
   \<and> get_sentiment (\<lambda>_. \<lparr>neg_score = 0, neu_score = 0.9, pos_score = 0.1, compound = 0.05\<rparr>) txt
        = (''Positive'', [128994])
   \<and> get_sentiment (\<lambda>_. \<lparr>neg_score = 0.1, neu_score = 0.9, pos_score = 0, compound = - 0.05\<rparr>) txt
        = (''Negative'', [128308])"
  by (simp add: get_sentiment_def Let_def)

end
